theory Spec2Isabelle
  imports Main "HOL-Library.Word" "HOL-Library.Multiset" "HOL-Library.Sublist"
begin

section \<open>The adapter of \<open>c/ffi.c\<close>\<close>

text \<open>
  \<^verbatim>\<open>
  uint32_t lean_simple_math_add(uint32_t a, uint32_t b) {
      return (uint32_t)add((int)a, (int)b);
  }
  \<close>
  \<open>uint32_t\<close> is a 32-bit word. A value of the C type \<open>int\<close> (32 bits wide, two's
  complement) is the integer it denotes. The two casts are written out numerically:
  \<open>(int)a\<close> keeps a value below \<open>2 ^ 31\<close> and subtracts \<open>2 ^ 32\<close> from the others,
  \<open>(uint32_t)r\<close> reduces modulo \<open>2 ^ 32\<close>.
\<close>

type_synonym uint32_t = "32 word"

definition int_of_uint32 :: "uint32_t \<Rightarrow> int" where
  "int_of_uint32 a = (if uint a < 2 ^ 31 then uint a else uint a - 2 ^ 32)"

definition uint32_of_int :: "int \<Rightarrow> uint32_t" where
  "uint32_of_int r = word_of_int (r mod 2 ^ 32)"

text \<open>
  \<open>add\<close> is only declared (\<open>int add(int a, int b);\<close> in \<open>simple_math.h\<close>); its body
  belongs to the library the adapter is linked against. It is a parameter of the model:
  any function from two \<open>int\<close> values and the state \<open>'w\<close> of the library to a result and
  the next state of the library.
\<close>

type_synonym 'w int_binop = "int \<Rightarrow> int \<Rightarrow> 'w \<Rightarrow> int \<times> 'w"

definition lean_simple_math_add ::
  "'w int_binop \<Rightarrow> uint32_t \<Rightarrow> uint32_t \<Rightarrow> 'w \<Rightarrow> uint32_t \<times> 'w" where
  "lean_simple_math_add add a b w =
     (case add (int_of_uint32 a) (int_of_uint32 b) w of
        (r, w') \<Rightarrow> (uint32_of_int r, w'))"

text \<open>
  A library function instrumented with the log of the calls it received, to count the
  calls an adapter makes.
\<close>

definition logged :: "'w int_binop \<Rightarrow> ('w \<times> (int \<times> int) list) int_binop" where
  "logged add x y s =
     (case s of (w, calls) \<Rightarrow>
        (case add x y w of (r, w') \<Rightarrow> (r, (w', calls @ [(x, y)]))))"

text \<open>The value range of the C type \<open>int\<close> and of \<open>uint32_t\<close>.\<close>

definition int_range :: "int \<Rightarrow> bool" where
  "int_range r \<longleftrightarrow> - (2 ^ 31) \<le> r \<and> r < 2 ^ 31"

definition uint32_range :: "int \<Rightarrow> bool" where
  "uint32_range r \<longleftrightarrow> 0 \<le> r \<and> r < 2 ^ 32"

definition in_range :: "int \<Rightarrow> bool" where
  "in_range r \<longleftrightarrow> int_range r \<and> uint32_range r"


section \<open>The handle library of \<open>tests/e2e/c/handle_lib.c\<close>\<close>

subsection \<open>Memory\<close>

text \<open>
  The library works on heap blocks through pointers, so the model has an explicit store.
  A pointer is \<open>NULL\<close> or the address of a block. A block is a character buffer
  (\<open>char[]\<close>, the bytes as they lie in memory, terminator included), a
  \<open>struct handle { char *name; }\<close> with its one field, or a block that \<open>malloc\<close> has
  handed out and nothing has been stored into yet. An address with no block is free or
  was never allocated.
\<close>

type_synonym addr = nat

datatype ptr = NULL | Addr addr

datatype obj = Uninit | Chars string | Handle ptr

text \<open>
  The undefined behaviours of the C code are the errors of the model: an access through
  \<open>NULL\<close>, an access through a pointer to no block or to a block of the wrong kind, a
  read of a field never written, a string read that finds no terminator in the buffer,
  and \<open>free\<close> on a block that \<open>malloc\<close> did not hand out.
\<close>

datatype error = NullDeref | InvalidPointer | UninitRead | Unterminated | InvalidFree

text \<open>
  \<open>malloc\<close> may fail, and where it succeeds the address is its own choice. Both are
  decided by \<open>allocs\<close>, the answers of the allocator to the calls to come: \<open>NULL\<close> for a
  failure, \<open>Addr a\<close> for the block at \<open>a\<close>. An allocator never hands out a live block,
  so an answer naming one counts as a failure, and so does an exhausted list. \<open>mallocd\<close>
  holds the addresses of the blocks that \<open>malloc\<close> handed out and \<open>free\<close> has not
  released; the other live blocks (a string literal, a buffer of the caller) are not
  \<open>malloc\<close>'s.
\<close>

record mem =
  heap :: "addr \<rightharpoonup> obj"
  allocs :: "ptr list"
  mallocd :: "addr set"

definition NUL :: char where
  "NUL = CHR 0x00"

definition malloc :: "mem \<Rightarrow> ptr \<times> mem" where
  "malloc m =
     (case allocs m of
        [] \<Rightarrow> (NULL, m)
      | NULL # rest \<Rightarrow> (NULL, m\<lparr>allocs := rest\<rparr>)
      | Addr a # rest \<Rightarrow>
          (if heap m a = None
           then (Addr a, m\<lparr>heap := (heap m)(a \<mapsto> Uninit), allocs := rest,
                           mallocd := insert a (mallocd m)\<rparr>)
           else (NULL, m\<lparr>allocs := rest\<rparr>)))"

text \<open>
  \<open>free(p)\<close> does nothing on \<open>NULL\<close> and releases a live block that \<open>malloc\<close> handed out.
  On any other address it is undefined: a block that is not \<open>malloc\<close>'s, or one freed
  before.
\<close>

definition free :: "ptr \<Rightarrow> mem \<Rightarrow> error + mem" where
  "free p m =
     (case p of
        NULL \<Rightarrow> Inr m
      | Addr a \<Rightarrow>
          (if a \<in> mallocd m
           then (case heap m a of
                   None \<Rightarrow> Inl InvalidPointer
                 | Some _ \<Rightarrow> Inr (m\<lparr>heap := (heap m)(a := None), mallocd := mallocd m - {a}\<rparr>))
           else Inl InvalidFree))"

text \<open>The string a buffer holds: its bytes before the first terminator.\<close>

definition c_str :: "string \<Rightarrow> string" where
  "c_str buf = takeWhile (\<lambda>c. c \<noteq> NUL) buf"

definition read_string :: "ptr \<Rightarrow> mem \<Rightarrow> error + string" where
  "read_string p m =
     (case p of
        NULL \<Rightarrow> Inl NullDeref
      | Addr a \<Rightarrow>
          (case heap m a of
             Some (Chars buf) \<Rightarrow> if NUL \<in> set buf then Inr (c_str buf) else Inl Unterminated
           | _ \<Rightarrow> Inl InvalidPointer))"

text \<open>\<open>strdup(s)\<close>: reads the string at \<open>s\<close>, then copies it into a block of its own, or
  returns \<open>NULL\<close> when that block cannot be allocated.\<close>

definition strdup :: "ptr \<Rightarrow> mem \<Rightarrow> error + ptr \<times> mem" where
  "strdup s m =
     (case read_string s m of
        Inl e \<Rightarrow> Inl e
      | Inr str \<Rightarrow>
          (case malloc m of
             (NULL, m') \<Rightarrow> Inr (NULL, m')
           | (Addr d, m') \<Rightarrow>
               Inr (Addr d, m'\<lparr>heap := (heap m')(d \<mapsto> Chars (str @ [NUL]))\<rparr>)))"

text \<open>The two accesses to the field: \<open>h->name = p\<close> and \<open>h->name\<close>.\<close>

definition set_name :: "ptr \<Rightarrow> ptr \<Rightarrow> mem \<Rightarrow> error + mem" where
  "set_name h p m =
     (case h of
        NULL \<Rightarrow> Inl NullDeref
      | Addr a \<Rightarrow>
          (case heap m a of
             None \<Rightarrow> Inl InvalidPointer
           | Some (Chars _) \<Rightarrow> Inl InvalidPointer
           | Some _ \<Rightarrow> Inr (m\<lparr>heap := (heap m)(a \<mapsto> Handle p)\<rparr>)))"

definition get_name :: "ptr \<Rightarrow> mem \<Rightarrow> error + ptr" where
  "get_name h m =
     (case h of
        NULL \<Rightarrow> Inl NullDeref
      | Addr a \<Rightarrow>
          (case heap m a of
             None \<Rightarrow> Inl InvalidPointer
           | Some (Chars _) \<Rightarrow> Inl InvalidPointer
           | Some Uninit \<Rightarrow> Inl UninitRead
           | Some (Handle p) \<Rightarrow> Inr p))"

subsection \<open>The three functions\<close>

text \<open>
  \<^verbatim>\<open>
  handle *handle_create(const char *name) {
      handle *h = (handle *)malloc(sizeof(handle));
      h->name = strdup(name);
      return h;
  }
  \<close>
  Neither result is tested: \<open>h\<close> is written through as \<open>malloc\<close> returned it, and what
  \<open>strdup\<close> returned is stored as it is.
\<close>

definition handle_create :: "ptr \<Rightarrow> mem \<Rightarrow> error + ptr \<times> mem" where
  "handle_create name m =
     (case malloc m of
        (h, m1) \<Rightarrow>
          (case strdup name m1 of
             Inl e \<Rightarrow> Inl e
           | Inr (p, m2) \<Rightarrow>
               (case set_name h p m2 of
                  Inl e \<Rightarrow> Inl e
                | Inr m3 \<Rightarrow> Inr (h, m3))))"

text \<open>
  \<^verbatim>\<open>
  const char *handle_name(handle *h) {
      return h->name;
  }
  \<close>
\<close>

definition handle_name :: "ptr \<Rightarrow> mem \<Rightarrow> error + ptr" where
  "handle_name h m = get_name h m"

text \<open>
  \<^verbatim>\<open>
  int handle_close(handle *h) {
      free(h->name);
      free(h);
      return 0;
  }
  \<close>
\<close>

definition handle_close :: "ptr \<Rightarrow> mem \<Rightarrow> error + int \<times> mem" where
  "handle_close h m =
     (case get_name h m of
        Inl e \<Rightarrow> Inl e
      | Inr p \<Rightarrow>
          (case free p m of
             Inl e \<Rightarrow> Inl e
           | Inr m1 \<Rightarrow>
               (case free h m1 of
                  Inl e \<Rightarrow> Inl e
                | Inr m2 \<Rightarrow> Inr (0, m2))))"

text \<open>An allocation succeeds in a state when \<open>malloc\<close> returns a block there.\<close>

definition malloc_succeeds :: "mem \<Rightarrow> bool" where
  "malloc_succeeds m \<longleftrightarrow> fst (malloc m) \<noteq> NULL"

section \<open>The binding generator\<close>

text \<open>
  The generator that reads a header and writes adapters such as the one of \<open>c/ffi.c\<close> is
  not among the source files: they hold its expected output (\<open>c/ffi.c\<close>) and its test
  inputs (\<open>tests/e2e/c/simple_math.h\<close>, \<open>tests/headers/mixed_api.h\<close>). Every definition
  of this section is therefore written from the specification, sections 3 to 7, and
  says so. Where the specification leaves a detail open (what counts as white space, how
  an unnamed parameter is called in the adapter), the choice made is stated with the
  definition.
\<close>

subsection \<open>Data model\<close>

text \<open>
  Modelled from the spec: the type model of section 3, missing from the sources.
  \<open>CType\<close> is the tagged union over \<open>PrimitiveInt(width, signedness)\<close>,
  \<open>Pointer(pointee)\<close>, \<open>OpaquePointer(handleName)\<close> and \<open>ConstQualified(inner)\<close>; a
  \<open>const char *\<close> is \<open>ConstQualified (Pointer (PrimitiveInt 8 _))\<close>.
\<close>

datatype signedness = Signed | Unsigned

text \<open>
  Modelled from the spec: the \<open>CType\<close> of section 3, missing from the
  sources.
\<close>

datatype ctype =
    PrimitiveInt nat signedness
  | Pointer ctype
  | OpaquePointer string
  | ConstQualified ctype

text \<open>
  Modelled from the spec: the \<open>Declaration\<close> of section 3, missing from the sources. A
  \<open>FunctionDecl\<close> has a name, the ordered parameters (name and type; the name is empty
  when the prototype gives none) and the return type; an \<open>OpaqueHandleDecl\<close> has the
  name of the handle and no fields.
\<close>

datatype c_declaration =
    FunctionDecl string "(string \<times> ctype) list" ctype
  | OpaqueHandleDecl string

text \<open>
  Modelled from the spec: the \<open>TypeMapping\<close> of section 3, missing from the sources: a
  target representation (the fixed-width 32-bit unsigned integer, the read-only string,
  an opaque handle type) with the conversion that goes with it (an explicit cast in both
  directions, or passing the value through).
\<close>

datatype target_repr = UInt32 | ByteString | OpaqueHandle string

text \<open>
  Modelled from the spec: the conversion rule of a \<open>TypeMapping\<close> (sections
  3 and 4.2), missing from the sources.
\<close>

datatype conversion = ExplicitCast | Passthrough

text \<open>
  Modelled from the spec: the pair (target representation, conversion) of section 3,
  missing from the sources.
\<close>

type_synonym type_mapping = "target_repr \<times> conversion"

text \<open>
  Modelled from the spec: the error taxonomy of section 7 and the diagnostics of
  section 6 (line number, best-effort snippet of the declaration, message), missing from
  the sources.
\<close>

datatype gen_error = ParseError | UnknownTypeError | DuplicateSymbolError

text \<open>
  Modelled from the spec: one entry of the diagnostics report (section 6), missing from
  the sources.
\<close>

record diagnostic =
  diag_line :: nat
  diag_snippet :: string
  diag_message :: gen_error

subsection \<open>Header parser\<close>

text \<open>
  Modelled from the spec: the tokenizer of the Header Parser (section 4.1), missing from
  the sources. Tokens are identifiers and the punctuation of a prototype; any other
  character is a token of its own, which no declaration accepts. Each token carries the
  number of its line. Preprocessor directives (from \<open>#\<close> to the end of the line) and
  comments (\<open>//\<close> to the end of the line, \<open>/*\<close> to the next \<open>*/\<close>) are skipped.
\<close>

datatype token =
  Ident string | LParen | RParen | LBrace | RBrace | Comma | Star | Semi | Other char

text \<open>
  Modelled from the spec: the line separator the line numbers of section 4.1 count,
  missing from the sources.
\<close>

definition newline :: char where
  "newline = CHR 0x0A"

text \<open>
  Modelled from the spec: the white space between tokens (section 4.1), missing from the
  sources: blank, tab, carriage return, line feed.
\<close>

definition is_space :: "char \<Rightarrow> bool" where
  "is_space c \<longleftrightarrow> c \<in> set [CHR '' '', CHR 0x09, CHR 0x0D, newline]"

text \<open>
  Modelled from the spec: the first character of a C identifier (section 4.1), missing
  from the sources.
\<close>

definition ident_start :: "char \<Rightarrow> bool" where
  "ident_start c \<longleftrightarrow>
     c \<in> set (''abcdefghijklmnopqrstuvwxyz'' @ ''ABCDEFGHIJKLMNOPQRSTUVWXYZ'' @ ''_'')"

text \<open>
  Modelled from the spec: the decimal digits (sections 4.1 and 4.3), missing from the
  sources.
\<close>

definition digits :: string where
  "digits = ''0123456789''"

text \<open>
  Modelled from the spec: the further characters of a C identifier (section 4.1),
  missing from the sources.
\<close>

definition ident_char :: "char \<Rightarrow> bool" where
  "ident_char c \<longleftrightarrow> ident_start c \<or> c \<in> set digits"

text \<open>
  Modelled from the spec: the punctuation of a prototype (section 4.1), missing from the
  sources.
\<close>

definition punct :: "char \<Rightarrow> token" where
  "punct c =
     (if c = CHR ''('' then LParen
      else if c = CHR '')'' then RParen
      else if c = CHR ''{'' then LBrace
      else if c = CHR ''}'' then RBrace
      else if c = CHR '','' then Comma
      else if c = CHR ''*'' then Star
      else if c = CHR '';'' then Semi
      else Other c)"

text \<open>
  Modelled from the spec: skipping a directive or a line comment up to the end of its
  line (section 4.1), missing from the sources.
\<close>

definition skip_line :: "string \<Rightarrow> string" where
  "skip_line cs = dropWhile (\<lambda>c. c \<noteq> newline) cs"

text \<open>
  Modelled from the spec: skipping a block comment, counting the lines it spans (section
  4.1), missing from the sources; a comment left open runs to the end of the text.
\<close>

fun skip_comment :: "nat \<Rightarrow> string \<Rightarrow> nat \<times> string" where
  "skip_comment ln [] = (ln, [])"
| "skip_comment ln [c] = (ln, [])"
| "skip_comment ln (c # d # cs) =
     (if c = CHR ''*'' \<and> d = CHR ''/'' then (ln, cs)
      else skip_comment (if c = newline then Suc ln else ln) (d # cs))"

text \<open>
  Modelled from the spec: the scan of the header text (section 4.1), missing from the
  sources. \<open>ln\<close> is the number of the current line.
\<close>

function tokenize :: "nat \<Rightarrow> string \<Rightarrow> (nat \<times> token) list" where
  "tokenize ln [] = []"
| "tokenize ln (c # cs) =
     (if c = newline then tokenize (Suc ln) cs
      else if is_space c then tokenize ln cs
      else if c = CHR ''#'' then tokenize ln (skip_line cs)
      else if c = CHR ''/'' \<and> take 1 cs = ''/'' then tokenize ln (skip_line cs)
      else if c = CHR ''/'' \<and> take 1 cs = ''*'' then
        tokenize (fst (skip_comment ln (tl cs))) (snd (skip_comment ln (tl cs)))
      else if ident_start c then
        (ln, Ident (c # takeWhile ident_char cs)) # tokenize ln (dropWhile ident_char cs)
      else (ln, punct c) # tokenize ln cs)"
  by pat_completeness auto
termination
proof (relation "measure (\<lambda>(ln, cs). length cs)")
  show "wf (measure (\<lambda>(ln, cs). length cs))" by simp
next
  fix ln :: nat and c :: char and cs :: string
  have shorter: "length (snd (skip_comment l xs)) \<le> length xs" for l xs
    by (induction l xs rule: skip_comment.induct) auto
  have "length (snd (skip_comment ln (tl cs))) \<le> length (tl cs)"
    by (rule shorter)
  then show "((fst (skip_comment ln (tl cs)), snd (skip_comment ln (tl cs))), ln, c # cs)
      \<in> measure (\<lambda>(ln, cs). length cs)"
    by (simp add: case_prod_beta)
qed (simp_all add: skip_line_def length_dropWhile_le less_Suc_eq_le)


text \<open>
  Modelled from the spec: the statements of a header (section 4.1), missing from the
  sources. A statement is the run of tokens up to and including a semicolon that stands
  outside all braces, numbered with the line of its first token; the semicolons between
  the braces of a \<open>struct\<close> body do not end it. Tokens left after the last such semicolon
  form a last statement, which lacks its semicolon and so parses as nothing.
\<close>

type_synonym stmt = "nat \<times> token list"

text \<open>
  Modelled from the spec: cutting the tokens into statements (section 4.1), missing from
  the sources; \<open>depth\<close> counts the braces that are open, \<open>acc\<close> holds the tokens of the
  current statement, last first.
\<close>

fun split_stmts :: "nat \<Rightarrow> (nat \<times> token) list \<Rightarrow> (nat \<times> token) list \<Rightarrow> stmt list" where
  "split_stmts depth acc [] =
     (if acc = [] then [] else [(fst (last acc), map snd (rev acc))])"
| "split_stmts depth acc (t # ts) =
     (if snd t = Semi \<and> depth = 0
      then (fst (last (t # acc)), map snd (rev (t # acc))) # split_stmts 0 [] ts
      else split_stmts
             (if snd t = LBrace then Suc depth
              else if snd t = RBrace then depth - 1 else depth)
             (t # acc) ts)"

text \<open>
  Modelled from the spec: the statements of a token sequence, in source order (section
  4.1), missing from the sources.
\<close>

definition statements :: "(nat \<times> token) list \<Rightarrow> stmt list" where
  "statements ts = split_stmts 0 [] ts"

text \<open>
  Modelled from the spec: the names a declaration may introduce (section 4.1), missing
  from the sources: a function, a parameter or a handle is named by a C identifier that
  is not a keyword of C.
\<close>

definition c_keywords :: "string list" where
  "c_keywords =
     [''auto'', ''break'', ''case'', ''char'', ''const'', ''continue'', ''default'', ''do'',
      ''double'', ''else'', ''enum'', ''extern'', ''float'', ''for'', ''goto'', ''if'',
      ''inline'', ''int'', ''long'', ''register'', ''restrict'', ''return'', ''short'',
      ''signed'', ''sizeof'', ''static'', ''struct'', ''switch'', ''typedef'', ''union'',
      ''unsigned'', ''void'', ''volatile'', ''while'']"

text \<open>
  Modelled from the spec: a usable name (section 4.1), missing from the sources.
\<close>

definition is_name :: "string \<Rightarrow> bool" where
  "is_name w \<longleftrightarrow>
     w \<noteq> [] \<and> ident_start (hd w) \<and> list_all ident_char w \<and> w \<notin> set c_keywords"

text \<open>
  Modelled from the spec: the integer types of C (section 3, \<open>PrimitiveInt(width,
  signedness)\<close>), missing from the sources. An integer type is written as a run of the
  specifiers \<open>unsigned\<close>, \<open>signed\<close>, \<open>char\<close>, \<open>short\<close>, \<open>int\<close> and \<open>long\<close>; the run is read
  whole, so that \<open>unsigned long\<close> is one type and never a type with a name. The widths
  are those of a platform whose \<open>int\<close> has 32 bits and whose \<open>long\<close> has 64; plain
  \<open>char\<close> counts as signed.
\<close>

definition type_specifier :: "string \<Rightarrow> bool" where
  "type_specifier w \<longleftrightarrow>
     w \<in> set [''unsigned'', ''signed'', ''char'', ''short'', ''int'', ''long'']"

text \<open>
  Modelled from the spec: the specifiers a type begins with, and the tokens after them
  (section 4.1), missing from the sources.
\<close>

fun take_specifiers :: "token list \<Rightarrow> string list \<times> token list" where
  "take_specifiers (Ident w # ts) =
     (if type_specifier w
      then (w # fst (take_specifiers ts), snd (take_specifiers ts))
      else ([], Ident w # ts))"
| "take_specifiers ts = ([], ts)"

text \<open>
  Modelled from the spec: the integer type a run of specifiers denotes (section 3),
  missing from the sources; \<open>None\<close> for a run that is no type of C.
\<close>

definition primitive :: "string list \<Rightarrow> ctype option" where
  "primitive ws =
     (let signs = filter (\<lambda>w. w = ''unsigned'' \<or> w = ''signed'') ws;
          core = filter (\<lambda>w. w \<noteq> ''unsigned'' \<and> w \<noteq> ''signed'') ws;
          sg = (if signs = [''unsigned''] then Unsigned else Signed)
      in if ws = [] \<or> 1 < length signs then None
         else if core = [] \<or> core = [''int''] then Some (PrimitiveInt 32 sg)
         else if core = [''char''] then Some (PrimitiveInt 8 sg)
         else if core \<in> set [[''short''], [''short'', ''int''], [''int'', ''short'']]
           then Some (PrimitiveInt 16 sg)
         else if core \<in> set [[''long''], [''long'', ''int''], [''int'', ''long''],
                               [''long'', ''long''], [''long'', ''long'', ''int''],
                               [''int'', ''long'', ''long'']]
           then Some (PrimitiveInt 64 sg)
         else None)"

text \<open>
  Modelled from the spec: the types a prototype may name (sections 3 and 4.1), missing
  from the sources: an integer type, \<open>TAG *\<close> for an opaque handle, a pointer to one of
  these, and \<open>const\<close> in front of any of them.
\<close>

fun parse_stars :: "ctype \<Rightarrow> token list \<Rightarrow> ctype \<times> token list" where
  "parse_stars t (Star # ts) = parse_stars (Pointer t) ts"
| "parse_stars t ts = (t, ts)"

text \<open>
  Modelled from the spec: a type without \<open>const\<close> (sections 3 and 4.1), missing from the
  sources; a name that is followed by \<open>*\<close> names an opaque handle.
\<close>

definition parse_unqualified :: "token list \<Rightarrow> (ctype \<times> token list) option" where
  "parse_unqualified ts =
     (case take_specifiers ts of
        (ws, rest) \<Rightarrow>
          (if ws \<noteq> [] then map_option (\<lambda>t. parse_stars t rest) (primitive ws)
           else (case ts of
                   Ident w # Star # after \<Rightarrow>
                     if is_name w then Some (parse_stars (OpaquePointer w) after) else None
                 | _ \<Rightarrow> None)))"

text \<open>
  Modelled from the spec: a type with or without \<open>const\<close>, and the tokens
  after it (sections 3 and 4.1), missing from the sources.
\<close>

definition parse_type :: "token list \<Rightarrow> (ctype \<times> token list) option" where
  "parse_type ts =
     (case ts of
        Ident w # rest \<Rightarrow>
          (if w = ''const''
           then map_option (\<lambda>(t, r). (ConstQualified t, r)) (parse_unqualified rest)
           else parse_unqualified ts)
      | _ \<Rightarrow> None)"

text \<open>
  Modelled from the spec: function prototypes of the shape
  \<open>RetType name(ParamType [name], ...);\<close> (section 4.1), missing from the sources. The
  parameters are the comma-separated groups between the parentheses; each is a type and
  at most one name.
\<close>

fun split_commas :: "token list \<Rightarrow> token list \<Rightarrow> token list list" where
  "split_commas acc [] = [rev acc]"
| "split_commas acc (t # ts) =
     (if t = Comma then rev acc # split_commas [] ts else split_commas (t # acc) ts)"

text \<open>
  Modelled from the spec: one parameter, \<open>ParamType [name]\<close> (section 4.1), missing from
  the sources. The name is empty when the prototype gives none.
\<close>

definition parse_param :: "token list \<Rightarrow> (string \<times> ctype) option" where
  "parse_param ts =
     (case parse_type ts of
        None \<Rightarrow> None
      | Some (t, rest) \<Rightarrow>
          (case rest of
             [] \<Rightarrow> Some ([], t)
           | [Ident n] \<Rightarrow> if is_name n then Some (n, t) else None
           | _ \<Rightarrow> None))"

text \<open>
  Modelled from the spec: the names given in a parameter list (section 4.1), missing
  from the sources.
\<close>

definition given_names :: "(string \<times> ctype) list \<Rightarrow> string list" where
  "given_names ps = filter (\<lambda>n. n \<noteq> []) (map fst ps)"

text \<open>
  Modelled from the spec: the parameter list (section 4.1), missing from the sources;
  one malformed parameter fails the list, and so does a name given twice.
\<close>

definition parse_params :: "token list \<Rightarrow> (string \<times> ctype) list option" where
  "parse_params ts =
     (if ts = [] then Some []
      else (case those (map parse_param (split_commas [] ts)) of
              None \<Rightarrow> None
            | Some ps \<Rightarrow> if distinct (given_names ps) then Some ps else None))"

text \<open>
  Modelled from the spec: a function prototype (section 4.1), missing from the sources.
\<close>

definition parse_function :: "token list \<Rightarrow> c_declaration option" where
  "parse_function ts =
     (case parse_type ts of
        Some (ret, Ident name # LParen # rest) \<Rightarrow>
          (if is_name name \<and> 2 \<le> length rest \<and> last rest = Semi
              \<and> last (butlast rest) = RParen
           then map_option (\<lambda>ps. FunctionDecl name ps ret)
                  (parse_params (butlast (butlast rest)))
           else None)
      | _ \<Rightarrow> None)"

text \<open>
  Modelled from the spec: the opaque-handle idiom \<open>typedef struct TAG TAG;\<close>
  (section 4.1), missing from the sources.
\<close>

definition parse_typedef :: "token list \<Rightarrow> c_declaration option" where
  "parse_typedef ts =
     (case ts of
        [t1, t2, Ident tag, t4, t5] \<Rightarrow>
          (if t1 = Ident ''typedef'' \<and> t2 = Ident ''struct'' \<and> is_name tag
              \<and> t4 = Ident tag \<and> t5 = Semi
           then Some (OpaqueHandleDecl tag) else None)
      | _ \<Rightarrow> None)"

text \<open>
  Modelled from the spec: the parse of one statement (section 4.1), missing from the
  sources. \<open>None\<close> is the unknown or unparseable statement.
\<close>

definition parse_statement :: "token list \<Rightarrow> c_declaration option" where
  "parse_statement ts =
     (case parse_typedef ts of
        Some d \<Rightarrow> Some d
      | None \<Rightarrow> parse_function ts)"


subsection \<open>Type mapper\<close>

text \<open>
  Modelled from the spec: the policy table of the Type Mapper (section 4.2), missing
  from the sources. \<open>int\<close> and \<open>unsigned int\<close> map to the 32-bit unsigned integer with an
  explicit cast, \<open>const char *\<close> to the read-only string passed through, an opaque
  pointer to its handle type passed through; every other shape is an error. The row of
  the table for an \<open>int\<close> returned as a status adds no conversion of its own: the value
  reaches the caller through the cast of the first row, as in the scenario of
  \<open>int add(int a, int b)\<close>. The mapping is a function of the \<open>CType\<close> alone.
\<close>

fun map_type :: "ctype \<Rightarrow> gen_error + type_mapping" where
  "map_type (PrimitiveInt w sg) =
     (if w = 32 then Inr (UInt32, ExplicitCast) else Inl UnknownTypeError)"
| "map_type (ConstQualified t) =
     (if t = Pointer (PrimitiveInt 8 Signed) then Inr (ByteString, Passthrough)
      else Inl UnknownTypeError)"
| "map_type (OpaquePointer tag) = Inr (OpaqueHandle tag, Passthrough)"
| "map_type (Pointer t) = Inl UnknownTypeError"

text \<open>
  Modelled from the spec: the declaration after the Mapper (section 3, lifecycle),
  missing from the sources: every parameter and the return type enriched with its
  \<open>TypeMapping\<close>. One unmappable type fails the declaration.
\<close>

datatype mapped_declaration =
    MappedFunction string "(string \<times> ctype \<times> type_mapping) list" "ctype \<times> type_mapping"
  | MappedHandle string

text \<open>
  Modelled from the spec: the Mapper on the parameters of a declaration (sections 3 and
  4.2), missing from the sources.
\<close>

fun map_params ::
  "(string \<times> ctype) list \<Rightarrow> gen_error + (string \<times> ctype \<times> type_mapping) list" where
  "map_params [] = Inr []"
| "map_params ((n, t) # ps) =
     (case map_type t of
        Inl e \<Rightarrow> Inl e
      | Inr m \<Rightarrow>
          (case map_params ps of
             Inl e \<Rightarrow> Inl e
           | Inr ms \<Rightarrow> Inr ((n, t, m) # ms)))"

text \<open>
  Modelled from the spec: the Mapper on a declaration (sections 3 and 4.2), missing from
  the sources.
\<close>

fun map_declaration :: "c_declaration \<Rightarrow> gen_error + mapped_declaration" where
  "map_declaration (OpaqueHandleDecl tag) = Inr (MappedHandle tag)"
| "map_declaration (FunctionDecl name ps ret) =
     (case map_params ps of
        Inl e \<Rightarrow> Inl e
      | Inr ms \<Rightarrow>
          (case map_type ret of
             Inl e \<Rightarrow> Inl e
           | Inr m \<Rightarrow> Inr (MappedFunction name ms (ret, m))))"

subsection \<open>Binding emitter\<close>

text \<open>
  Modelled from the spec: the adapter the Binding Emitter writes (section 4.3), missing
  from the sources, before it is rendered as text: its symbol, its return type and
  parameters in the target representation, and the expression it returns. The
  expressions are those of C that an adapter could contain: a parameter, a cast, a call,
  a dereference \<open>*e\<close> and a field access \<open>e->f\<close>.
\<close>

datatype expr =
    Var string
  | Cast string expr
  | Call string "expr list"
  | Deref expr
  | Member expr string

text \<open>
  Modelled from the spec: the adapter function (section 4.3), missing from the sources.
\<close>

record adapter =
  adapter_symbol :: string
  adapter_ret :: target_repr
  adapter_params :: "(target_repr \<times> string) list"
  adapter_body :: expr

text \<open>
  Modelled from the spec: the \<open>BindingUnit\<close> of section 3, missing from the sources: the
  generated text and the original symbol it binds to. Its status is success; a failed
  declaration yields a diagnostic in its place (section 4.4). The unit of an opaque
  handle declaration has no adapter and no text.
\<close>

record binding_unit =
  unit_text :: string
  unit_symbol :: string
  unit_adapter :: "adapter option"

text \<open>
  Modelled from the spec: the rendering of an adapter as C source text (section 4.3),
  missing from the sources, in the layout of the reference adapter of \<open>c/ffi.c\<close>.
\<close>

fun c_type_text :: "ctype \<Rightarrow> string" where
  "c_type_text (PrimitiveInt w sg) =
     (if w = 8 then ''char'' else if sg = Signed then ''int'' else ''unsigned int'')"
| "c_type_text (Pointer t) = c_type_text t @ '' *''"
| "c_type_text (OpaquePointer tag) = tag @ '' *''"
| "c_type_text (ConstQualified t) = ''const '' @ c_type_text t"

text \<open>
  Modelled from the spec: the C spelling of a target representation (section 4.3),
  missing from the sources.
\<close>

fun target_text :: "target_repr \<Rightarrow> string" where
  "target_text UInt32 = ''uint32_t''"
| "target_text ByteString = ''const char *''"
| "target_text (OpaqueHandle tag) = tag @ '' *''"

text \<open>
  Modelled from the spec: a type followed by a name, as a C declarator (section 4.3),
  missing from the sources.
\<close>

definition declarator :: "target_repr \<Rightarrow> string \<Rightarrow> string" where
  "declarator t n = (if t = UInt32 then target_text t @ '' '' @ n else target_text t @ n)"

text \<open>
  Modelled from the spec: a separated list in the generated text (section 4.3), missing
  from the sources.
\<close>

fun join :: "string \<Rightarrow> string list \<Rightarrow> string" where
  "join sep [] = []"
| "join sep [x] = x"
| "join sep (x # y # ys) = x @ sep @ join sep (y # ys)"

text \<open>
  Modelled from the spec: the C text of an expression (section 4.3), missing from the
  sources.
\<close>

fun render_expr :: "expr \<Rightarrow> string" where
  "render_expr (Var n) = n"
| "render_expr (Cast t e) = ''('' @ t @ '')'' @ render_expr e"
| "render_expr (Call f args) = f @ ''('' @ join '', '' (map render_expr args) @ '')''"
| "render_expr (Deref e) = ''*'' @ render_expr e"
| "render_expr (Member e f) = render_expr e @ ''->'' @ f"

text \<open>
  Modelled from the spec: the C text of an adapter (section 4.3), missing from the
  sources.
\<close>

definition render_adapter :: "adapter \<Rightarrow> string" where
  "render_adapter a =
     declarator (adapter_ret a) (adapter_symbol a) @ ''(''
       @ join '', '' (map (\<lambda>(t, n). declarator t n) (adapter_params a)) @ '') {'' @ [newline]
       @ ''    return '' @ render_expr (adapter_body a) @ '';'' @ [newline]
       @ ''}'' @ [newline]"

text \<open>
  Modelled from the spec: the names of the adapter's parameters (section 4.3), missing
  from the sources. When the prototype names every parameter, the adapter keeps the
  names; when it leaves one out, the adapter names all of them by position, \<open>arg0\<close>,
  \<open>arg1\<close> and so on, so that no name made up can meet a name given.
\<close>

text \<open>
  Modelled from the spec: the digit for a number below ten (section 4.3), missing from
  the sources.
\<close>

definition digit :: "nat \<Rightarrow> char" where
  "digit n = digits ! n"

text \<open>
  Modelled from the spec: a position written in decimal (section 4.3), missing from the
  sources.
\<close>

function decimal :: "nat \<Rightarrow> string" where
  "decimal n = (if n < 10 then [digit n] else decimal (n div 10) @ [digit (n mod 10)])"
  by pat_completeness auto
termination
  by (relation "measure id") auto

text \<open>
  Modelled from the spec: the number a decimal numeral stands for (section 4.3), missing
  from the sources; it reads back what \<open>decimal\<close> writes.
\<close>

definition digit_value :: "char \<Rightarrow> nat" where
  "digit_value c = length (takeWhile (\<lambda>d. d \<noteq> c) digits)"

text \<open>
  Modelled from the spec: the value of a string of digits (section 4.3), missing from
  the sources.
\<close>

definition numeral_value :: "string \<Rightarrow> nat" where
  "numeral_value ds = foldl (\<lambda>a c. 10 * a + digit_value c) 0 ds"

text \<open>
  Modelled from the spec: the names by position of \<open>n\<close> parameters (section 4.3),
  missing from the sources.
\<close>

definition positional_names :: "nat \<Rightarrow> string list" where
  "positional_names n = map (\<lambda>i. ''arg'' @ decimal i) [0..<n]"

text \<open>
  Modelled from the spec: the names of the adapter's parameters, from the names of the
  prototype (section 4.3), missing from the sources.
\<close>

definition adapter_names :: "string list \<Rightarrow> string list" where
  "adapter_names ns =
     (if list_all (\<lambda>n. n \<noteq> []) ns then ns else positional_names (length ns))"

text \<open>
  Modelled from the spec: the mapped parameters under the names the adapter gives them
  (section 4.3), missing from the sources.
\<close>

definition name_params ::
  "(string \<times> ctype \<times> type_mapping) list \<Rightarrow> (string \<times> ctype \<times> type_mapping) list" where
  "name_params ps = zip (adapter_names (map fst ps)) (map snd ps)"

text \<open>
  Modelled from the spec: the conversions of the adapter body (section 4.3), missing
  from the sources: each argument is converted by its mapping (a cast to the C type of
  the parameter, or nothing), the result by its own (a cast to the target type, or
  nothing).
\<close>

definition convert_arg :: "string \<times> ctype \<times> type_mapping \<Rightarrow> expr" where
  "convert_arg p =
     (case p of (n, t, (target, conv)) \<Rightarrow>
        (case conv of
           ExplicitCast \<Rightarrow> Cast (c_type_text t) (Var n)
         | Passthrough \<Rightarrow> Var n))"

text \<open>
  Modelled from the spec: the conversion of the result (section 4.3), missing from the
  sources.
\<close>

definition convert_result :: "ctype \<times> type_mapping \<Rightarrow> expr \<Rightarrow> expr" where
  "convert_result r e =
     (case r of (t, (target, conv)) \<Rightarrow>
        (case conv of
           ExplicitCast \<Rightarrow> Cast (target_text target) e
         | Passthrough \<Rightarrow> e))"

text \<open>
  Modelled from the spec: the opaque handles a declaration refers to (section 4.3),
  missing from the sources.
\<close>

fun handle_of :: "type_mapping \<Rightarrow> string list" where
  "handle_of (OpaqueHandle tag, conv) = [tag]"
| "handle_of (target, conv) = []"

text \<open>
  Modelled from the spec: the handles of the parameters and of the result (section 4.3),
  missing from the sources.
\<close>

definition handles_used :: "(string \<times> ctype \<times> type_mapping) list \<Rightarrow> ctype \<times> type_mapping \<Rightarrow> string list" where
  "handles_used ps r = concat (map (\<lambda>(n, t, m). handle_of m) ps) @ handle_of (snd r)"

text \<open>
  Modelled from the spec: the Binding Emitter (section 4.3), missing from the sources.
  The adapter is called by the prefix, an underscore and the original name; it converts
  its arguments, calls the original symbol by its name and converts the result. A handle that is not registered
  (\<open>known\<close>) when the declaration uses it is the error ``unknown type''. An opaque handle
  declaration emits no adapter.
\<close>

definition make_adapter ::
  "string \<Rightarrow> string \<Rightarrow> (string \<times> ctype \<times> type_mapping) list \<Rightarrow> ctype \<times> type_mapping \<Rightarrow> adapter" where
  "make_adapter lib name ps r =
     \<lparr>adapter_symbol = lib @ ''_'' @ name,
      adapter_ret = fst (snd r),
      adapter_params = map (\<lambda>(n, t, m). (fst m, n)) (name_params ps),
      adapter_body = convert_result r (Call name (map convert_arg (name_params ps)))\<rparr>"

text \<open>
  Modelled from the spec: the emission result for one mapped declaration (sections 3 and
  4.3), missing from the sources.
\<close>

fun emit :: "string \<Rightarrow> string list \<Rightarrow> mapped_declaration \<Rightarrow> gen_error + binding_unit" where
  "emit lib known (MappedHandle tag) =
     Inr \<lparr>unit_text = [], unit_symbol = tag, unit_adapter = None\<rparr>"
| "emit lib known (MappedFunction name ps r) =
     (if list_all (\<lambda>tag. tag \<in> set known) (handles_used ps r)
      then Inr \<lparr>unit_text = render_adapter (make_adapter lib name ps r),
                unit_symbol = name,
                unit_adapter = Some (make_adapter lib name ps r)\<rparr>
      else Inl UnknownTypeError)"

subsection \<open>Driver\<close>

text \<open>
  Modelled from the spec: the output of the Header Parser for one statement (sections
  4.1 and 5), missing from the sources: the line, the tokens (for the snippet of a
  diagnostic), the declaration or \<open>None\<close> for a malformed statement, and the opaque
  handles registered before it. The registry is passed explicitly, append-only; the
  parser adds the tag of each \<open>typedef struct TAG TAG;\<close> for the statements after it.
\<close>

record item =
  item_line :: nat
  item_tokens :: "token list"
  item_decl :: "c_declaration option"
  item_known :: "string list"

text \<open>
  Modelled from the spec: registering the tag of an opaque handle declaration (sections
  4.1 and 5), missing from the sources.
\<close>

definition register :: "c_declaration option \<Rightarrow> string list \<Rightarrow> string list" where
  "register d known =
     (case d of
        Some (OpaqueHandleDecl tag) \<Rightarrow> known @ [tag]
      | _ \<Rightarrow> known)"

text \<open>
  Modelled from the spec: the Header Parser on the statements, threading the registry
  (section 4.1), missing from the sources.
\<close>

fun parse_statements :: "string list \<Rightarrow> stmt list \<Rightarrow> item list" where
  "parse_statements known [] = []"
| "parse_statements known (s # ss) =
     \<lparr>item_line = fst s, item_tokens = snd s,
      item_decl = parse_statement (snd s), item_known = known\<rparr>
     # parse_statements (register (parse_statement (snd s)) known) ss"

text \<open>
  Modelled from the spec: the Header Parser on the header text (section 4.1), missing
  from the sources; lines are counted from 1.
\<close>

definition parse_header :: "string list \<Rightarrow> string \<Rightarrow> item list" where
  "parse_header known text = parse_statements known (statements (tokenize 1 text))"

text \<open>
  Modelled from the spec: the ordered sequence of declarations the parser returns
  (section 4.1), missing from the sources.
\<close>

definition parser_declarations :: "item list \<Rightarrow> c_declaration list" where
  "parser_declarations items = List.map_filter item_decl items"

text \<open>
  Modelled from the spec: a diagnostic (section 6), missing from the sources: the line
  of the statement, its tokens as the snippet, and the error.
\<close>

fun token_text :: "token \<Rightarrow> string" where
  "token_text (Ident w) = w"
| "token_text LParen = ''(''"
| "token_text RParen = '')''"
| "token_text LBrace = ''{''"
| "token_text RBrace = ''}''"
| "token_text Comma = '',''"
| "token_text Star = ''*''"
| "token_text Semi = '';''"
| "token_text (Other c) = [c]"

text \<open>
  Modelled from the spec: the diagnostic of an item for an error (section 6), missing
  from the sources.
\<close>

definition diagnose :: "item \<Rightarrow> gen_error \<Rightarrow> diagnostic" where
  "diagnose it e =
     \<lparr>diag_line = item_line it,
      diag_snippet = join '' '' (map token_text (item_tokens it)),
      diag_message = e\<rparr>"

text \<open>
  Modelled from the spec: the parse diagnostics, one for each malformed statement
  (section 4.1), missing from the sources.
\<close>

definition parser_diagnostics :: "item list \<Rightarrow> diagnostic list" where
  "parser_diagnostics items =
     map (\<lambda>it. diagnose it ParseError) (filter (\<lambda>it. item_decl it = None) items)"

text \<open>
  Modelled from the spec: Parser, Mapper and Emitter on one declaration (section 4.4),
  missing from the sources: one \<open>BindingUnit\<close> or one diagnostic. It depends on nothing
  but the item, so items can be translated in any order.
\<close>

definition translate :: "string \<Rightarrow> item \<Rightarrow> diagnostic + binding_unit" where
  "translate lib it =
     (case item_decl it of
        None \<Rightarrow> Inl (diagnose it ParseError)
      | Some d \<Rightarrow>
          (case map_declaration d of
             Inl e \<Rightarrow> Inl (diagnose it e)
           | Inr m \<Rightarrow>
               (case emit lib (item_known it) m of
                  Inl e \<Rightarrow> Inl (diagnose it e)
                | Inr u \<Rightarrow> Inr u)))"

text \<open>
  Modelled from the spec: uniqueness of the adapter symbols within the output (sections
  4.3 and 7), missing from the sources. Going through the results in source order, an
  adapter whose symbol was already emitted becomes a \<open>DuplicateSymbolError\<close> for the
  later declaration.
\<close>

fun unique_symbols ::
  "string list \<Rightarrow> (item \<times> (diagnostic + binding_unit)) list \<Rightarrow> (diagnostic + binding_unit) list" where
  "unique_symbols seen [] = []"
| "unique_symbols seen ((it, Inl d) # rs) = Inl d # unique_symbols seen rs"
| "unique_symbols seen ((it, Inr u) # rs) =
     (case unit_adapter u of
        None \<Rightarrow> Inr u # unique_symbols seen rs
      | Some a \<Rightarrow>
          (if adapter_symbol a \<in> set seen
           then Inl (diagnose it DuplicateSymbolError) # unique_symbols seen rs
           else Inr u # unique_symbols (adapter_symbol a # seen) rs))"

text \<open>
  Modelled from the spec: the result of a run (sections 4.4 and 6), missing from the
  sources: the units and the diagnostics, each in the order of the results, the generated
  file (the texts of the units, one after the other), and the exit status, failure if
  and only if there is a diagnostic.
\<close>

fun units_of :: "(diagnostic + binding_unit) list \<Rightarrow> binding_unit list" where
  "units_of [] = []"
| "units_of (Inl d # rs) = units_of rs"
| "units_of (Inr u # rs) = u # units_of rs"

text \<open>
  Modelled from the spec: the diagnostics among the results, in their order (section
  4.4), missing from the sources.
\<close>

fun diagnostics_of :: "(diagnostic + binding_unit) list \<Rightarrow> diagnostic list" where
  "diagnostics_of [] = []"
| "diagnostics_of (Inl d # rs) = d # diagnostics_of rs"
| "diagnostics_of (Inr u # rs) = diagnostics_of rs"

text \<open>
  Modelled from the spec: what a run returns (sections 4.4 and 6), missing from the
  sources.
\<close>

record run_result =
  run_units :: "binding_unit list"
  run_diagnostics :: "diagnostic list"
  run_output :: string
  run_failed :: bool

text \<open>
  Modelled from the spec: the result set and the exit status (section 4.4), missing from
  the sources.
\<close>

definition collect :: "(diagnostic + binding_unit) list \<Rightarrow> run_result" where
  "collect rs =
     \<lparr>run_units = units_of rs,
      run_diagnostics = diagnostics_of rs,
      run_output = concat (map unit_text (units_of rs)),
      run_failed = (diagnostics_of rs \<noteq> [])\<rparr>"

text \<open>
  Modelled from the spec: the Driver (sections 4.4 and 5), missing from the sources.
  The statements are parsed in order and numbered; the items are translated in the
  order a schedule puts them in (the internal processing order, which section 5 leaves
  free), the results are sorted back by their number, and made unique. \<open>process\<close> runs on
  the statements, \<open>generate\<close> on the header text; \<open>known\<close> holds the registrations of the
  headers processed before.
\<close>

type_synonym schedule = "(nat \<times> item) list \<Rightarrow> (nat \<times> item) list"

text \<open>
  Modelled from the spec: translating in scheduled order, sorting back, making the
  symbols unique (sections 4.4 and 5), missing from the sources.
\<close>

definition outcomes ::
  "string \<Rightarrow> schedule \<Rightarrow> item list \<Rightarrow> (diagnostic + binding_unit) list" where
  "outcomes lib sched items =
     unique_symbols []
       (map snd
          (sort_key fst
             (map (\<lambda>(i, it). (i, it, translate lib it))
                (sched (zip [0..<length items] items)))))"

text \<open>
  Modelled from the spec: the Driver on the statements of a header (section 4.4),
  missing from the sources.
\<close>

definition process :: "string \<Rightarrow> string list \<Rightarrow> schedule \<Rightarrow> stmt list \<Rightarrow> run_result" where
  "process lib known sched ss = collect (outcomes lib sched (parse_statements known ss))"

text \<open>
  Modelled from the spec: the Driver on the header text (section 4.4), missing from the
  sources.
\<close>

definition generate :: "string \<Rightarrow> string list \<Rightarrow> schedule \<Rightarrow> string \<Rightarrow> run_result" where
  "generate lib known sched text = process lib known sched (statements (tokenize 1 text))"

text \<open>
  Modelled from the spec: an admissible processing order (section 5), missing from the
  sources: the schedule only reorders the items, it neither drops nor repeats one.
  \<open>in_source_order\<close> is the run that takes the items as the header has them.
\<close>

definition reorders :: "schedule \<Rightarrow> bool" where
  "reorders sched \<longleftrightarrow> (\<forall>xs. mset (sched xs) = mset xs)"

text \<open>
  Modelled from the spec: the results when the items are taken in source order (section
  5), missing from the sources.
\<close>

definition in_source_order :: "string \<Rightarrow> item list \<Rightarrow> (diagnostic + binding_unit) list" where
  "in_source_order lib items =
     unique_symbols [] (map (\<lambda>it. (it, translate lib it)) items)"


text \<open>
  Modelled from the spec: ``no field access, no dereference'' (section 8), missing from
  the sources: whether an expression looks into what a pointer points to.
\<close>

fun accesses_pointee :: "expr \<Rightarrow> bool" where
  "accesses_pointee (Var n) = False"
| "accesses_pointee (Cast t e) = accesses_pointee e"
| "accesses_pointee (Call f args) = list_ex accesses_pointee args"
| "accesses_pointee (Deref e) = True"
| "accesses_pointee (Member e f) = True"

text \<open>
  Modelled from the spec: the characters of an expression that only names parameters,
  casts them and calls a function (section 8), missing from the sources: those of
  identifiers, the parentheses, the comma and the blank. None of the operators of C that
  reach through a pointer (\<open>*\<close>, \<open>->\<close>, \<open>.\<close>, \<open>[\<close>) can be written with them.
\<close>

definition body_char :: "char \<Rightarrow> bool" where
  "body_char c \<longleftrightarrow> ident_char c \<or> c \<in> set ''(), ''"






subsection \<open>The fixtures\<close>

text \<open>The text of \<open>tests/e2e/c/simple_math.h\<close> and of \<open>tests/headers/mixed_api.h\<close>.\<close>

definition simple_math_h :: string where
  "simple_math_h = ''#ifndef SIMPLE_MATH_H\<newline>#define SIMPLE_MATH_H\<newline>\<newline>/*\<newline> * A tiny C library that our Lean code will call through the FFI.\<newline> * This file is the \"user-provided\" header -- the kind of file\<newline> * our transpiler will eventually parse automatically.\<newline> */\<newline>\<newline>int add(int a, int b);\<newline>\<newline>#endif /* SIMPLE_MATH_H */\<newline>\<newline>''"

definition mixed_api_h :: string where
  "mixed_api_h = ''typedef struct db_conn db_conn;\<newline>db_conn *db_open(const char *path);\<newline>int db_close(db_conn *conn);\<newline>const char *db_error(db_conn *conn);\<newline>int db_execute(db_conn *conn, const char *sql);''"


section \<open>Properties of the adapter\<close>

subsection \<open>The casts\<close>

text \<open>The two casts are the readings of a 32-bit word that the word library has.\<close>
lemma uint32_bounds: "0 \<le> uint (a :: uint32_t) \<and> uint a < 4294967296"
  using uint_bounded [of a] by simp

lemma int_of_uint32_sint: "int_of_uint32 a = sint a"
proof -
  have s: "sint a = (uint a + 2 ^ 31) mod 2 ^ 32 - 2 ^ 31"
    using int_word_sint [of "uint a", where 'a = 32] by simp
  have b: "0 \<le> uint a \<and> uint a < 4294967296" by (rule uint32_bounds)
  show ?thesis
  proof (cases "uint a < 2 ^ 31")
    case True
    then have "(uint a + 2 ^ 31) mod 2 ^ 32 = uint a + 2 ^ 31"
      using b by (simp add: mod_pos_pos_trivial)
    then show ?thesis using True s by (simp add: int_of_uint32_def)
  next
    case False
    then have "(uint a + 2 ^ 31) mod 2 ^ 32 = uint a + 2 ^ 31 - 2 ^ 32"
      using b by (simp add: mod_pos_geq mod_pos_pos_trivial)
    then show ?thesis using False s by (simp add: int_of_uint32_def)
  qed
qed

lemma uint32_of_int_word: "uint32_of_int r = word_of_int r"
  by (simp add: uint32_of_int_def word_of_int_eq_iff take_bit_eq_mod)

lemma uint_uint32_of_int: "uint (uint32_of_int r) = r mod 2 ^ 32"
  by (simp add: uint32_of_int_def uint_word_of_int)

lemma int_of_uint32_range: "int_range (int_of_uint32 a)"
proof -
  have "(- (2 ^ 31) :: int) \<le> 0" by simp
  then have lo: "- (2 ^ 31) \<le> uint a"
    using uint_nonnegative [of a] by (rule order_trans)
  have "uint a < 2 ^ 31 + 2 ^ 32"
    using uint32_bounds [of a] by simp
  then have hi: "uint a - 2 ^ 32 < 2 ^ 31" by simp
  show ?thesis
    using lo hi by (simp add: int_range_def int_of_uint32_def)
qed

lemma int_of_uint32_small: "uint a < 2 ^ 31 \<Longrightarrow> int_of_uint32 a = uint a"
  by (simp add: int_of_uint32_def)

lemma uint32_of_int_inverse: "uint32_range r \<Longrightarrow> uint (uint32_of_int r) = r"
  by (simp add: uint_uint32_of_int uint32_range_def mod_pos_pos_trivial)

lemma uint32_of_int_of_uint32: "uint32_of_int (int_of_uint32 a) = a"
  by (simp add: uint32_of_int_word int_of_uint32_sint)

text \<open>
  Claim C1. The adapter converts each of its two \<open>uint32_t\<close> arguments to \<open>int\<close>,
  calls \<open>add\<close> on them, converts the \<open>int\<close> it gets back to \<open>uint32_t\<close> and returns
  it, leaving the state of the library as the call left it: for every \<open>a\<close> and \<open>b\<close> the
  result is \<open>uint32_of_int (add (int_of_uint32 a) (int_of_uint32 b))\<close>. It calls \<open>add\<close>
  exactly once: the log of calls of an instrumented \<open>add\<close>, empty before, holds
  afterwards the one call with the two converted arguments.
\<close>

theorem lean_simple_math_add_delegates:
  "lean_simple_math_add add a b w =
     (uint32_of_int (fst (add (int_of_uint32 a) (int_of_uint32 b) w)),
      snd (add (int_of_uint32 a) (int_of_uint32 b) w))
   \<and> snd (snd (lean_simple_math_add (logged add) a b (w, []))) =
       [(int_of_uint32 a, int_of_uint32 b)]"
  by (simp add: lean_simple_math_add_def logged_def case_prod_beta)

text \<open>
  Claim C2. Round trip: when both arguments are values that \<open>int\<close> and \<open>uint32_t\<close> both
  represent, and \<open>add\<close>, whatever it computes, returns such a value on them, the adapter
  returns the number that the direct call of \<open>add\<close> on the same numbers returns (and
  leaves the library in the same state).
\<close>

theorem lean_simple_math_add_round_trip:
  assumes "in_range (uint a)" and "in_range (uint b)"
    and "in_range (fst (add (uint a) (uint b) w))"
  shows "uint (fst (lean_simple_math_add add a b w)) = fst (add (uint a) (uint b) w)
    \<and> snd (lean_simple_math_add add a b w) = snd (add (uint a) (uint b) w)"
proof -
  have a: "int_of_uint32 a = uint a"
    using assms(1) by (simp add: in_range_def int_range_def int_of_uint32_small)
  have b: "int_of_uint32 b = uint b"
    using assms(2) by (simp add: in_range_def int_range_def int_of_uint32_small)
  have r: "uint32_range (fst (add (uint a) (uint b) w))"
    using assms(3) by (simp add: in_range_def)
  show ?thesis
    using uint32_of_int_inverse [OF r]
    by (simp add: lean_simple_math_add_def a b case_prod_beta)
qed

theorem lean_simple_math_add_round_trip_witness:
  "in_range (uint (2 :: uint32_t)) \<and> in_range (uint (3 :: uint32_t))
   \<and> in_range (fst ((\<lambda>x y w. (x + y, w)) (uint (2 :: uint32_t)) (uint (3 :: uint32_t)) ()))
   \<and> uint (fst (lean_simple_math_add (\<lambda>x y w. (x + y, w)) 2 3 ())) = 5"
  using lean_simple_math_add_round_trip [of 2 3 "\<lambda>x y w. (x + y, w)" "()"]
  by (simp add: in_range_def int_range_def uint32_range_def)


section \<open>Properties of the handle library\<close>

subsection \<open>Allocation and strings\<close>

lemma malloc_NULL: "fst (malloc m) = NULL \<Longrightarrow> heap (snd (malloc m)) = heap m"
proof (cases "allocs m")
  case Nil
  then show ?thesis by (simp add: malloc_def)
next
  case (Cons p rest)
  assume n: "fst (malloc m) = NULL"
  show ?thesis
  proof (cases p)
    case NULL
    then show ?thesis using Cons by (simp add: malloc_def)
  next
    case (Addr a)
    then show ?thesis using Cons n by (cases "heap m a") (simp_all add: malloc_def)
  qed
qed

lemma malloc_Addr:
  assumes "fst (malloc m) = Addr a"
  shows "heap m a = None \<and> heap (snd (malloc m)) = (heap m)(a \<mapsto> Uninit)"
proof (cases "allocs m")
  case Nil
  then show ?thesis using assms by (simp add: malloc_def)
next
  case (Cons p rest)
  show ?thesis
  proof (cases p)
    case NULL
    then show ?thesis using Cons assms by (simp add: malloc_def)
  next
    case (Addr d)
    then show ?thesis using Cons assms by (cases "heap m d") (simp_all add: malloc_def)
  qed
qed

lemma malloc_NULL_mallocd:
  assumes "fst (malloc m) = NULL"
  shows "mallocd (snd (malloc m)) = mallocd m"
proof (cases "allocs m")
  case Nil
  then show ?thesis by (simp add: malloc_def)
next
  case (Cons p rest)
  show ?thesis
  proof (cases p)
    case NULL
    then show ?thesis using Cons by (simp add: malloc_def)
  next
    case (Addr a)
    then show ?thesis using Cons assms by (cases "heap m a") (simp_all add: malloc_def)
  qed
qed

lemma malloc_Addr_mallocd:
  assumes "fst (malloc m) = Addr a"
  shows "mallocd (snd (malloc m)) = insert a (mallocd m)"
proof (cases "allocs m")
  case Nil
  then show ?thesis using assms by (simp add: malloc_def)
next
  case (Cons p rest)
  show ?thesis
  proof (cases p)
    case NULL
    then show ?thesis using Cons assms by (simp add: malloc_def)
  next
    case (Addr d)
    then show ?thesis using Cons assms by (cases "heap m d") (simp_all add: malloc_def)
  qed
qed

lemma read_string_heap:
  "heap m' a = heap m a \<Longrightarrow> read_string (Addr a) m' = read_string (Addr a) m"
  by (simp add: read_string_def)

lemma read_string_live:
  assumes "read_string p m = Inr s"
  shows "\<exists>a buf. p = Addr a \<and> heap m a = Some (Chars buf) \<and> NUL \<in> set buf \<and> s = c_str buf"
proof (cases p)
  case NULL
  then show ?thesis using assms by (simp add: read_string_def)
next
  case (Addr a)
  then show ?thesis using assms
    by (simp add: read_string_def split: option.splits obj.splits if_splits)
qed

lemma malloc_keeps_live: "heap m a = Some v \<Longrightarrow> heap (snd (malloc m)) a = Some v"
proof (cases "fst (malloc m)")
  case NULL
  assume "heap m a = Some v"
  then show ?thesis using malloc_NULL [OF NULL] by simp
next
  case (Addr d)
  assume "heap m a = Some v"
  then show ?thesis using malloc_Addr [OF Addr] by auto
qed

lemma read_string_malloc:
  assumes "read_string p m = Inr s"
  shows "read_string p (snd (malloc m)) = Inr s"
proof -
  obtain a buf where p: "p = Addr a" and live: "heap m a = Some (Chars buf)"
    using read_string_live [OF assms] by blast
  have "heap (snd (malloc m)) a = heap m a"
    using malloc_keeps_live [OF live] live by simp
  then have "read_string (Addr a) (snd (malloc m)) = read_string (Addr a) m"
    by (rule read_string_heap)
  then show ?thesis using assms p by simp
qed

lemma c_str_no_NUL: "NUL \<notin> set (c_str buf)"
  unfolding c_str_def by (induction buf) auto

lemma takeWhile_terminated: "c \<notin> set xs \<Longrightarrow> takeWhile (\<lambda>x. x \<noteq> c) (xs @ [c]) = xs"
  by (induction xs) auto

lemma c_str_copy: "c_str (c_str buf @ [NUL]) = c_str buf"
  using takeWhile_terminated [OF c_str_no_NUL, of buf] by (simp add: c_str_def)

lemma read_string_copy:
  "heap m d = Some (Chars (c_str buf @ [NUL])) \<Longrightarrow> read_string (Addr d) m = Inr (c_str buf)"
  by (simp add: read_string_def c_str_copy)


lemma strdup_fail:
  assumes "read_string s m = Inr str" and "fst (malloc m) = NULL"
  shows "strdup s m = Inr (NULL, snd (malloc m))"
  using assms by (simp add: strdup_def case_prod_beta)

lemma strdup_ok:
  assumes "read_string s m = Inr str" and "fst (malloc m) = Addr d"
  shows "strdup s m =
     Inr (Addr d, (snd (malloc m))\<lparr>heap := (heap (snd (malloc m)))(d \<mapsto> Chars (str @ [NUL]))\<rparr>)"
  using assms by (simp add: strdup_def case_prod_beta)

lemma handle_create_no_block:
  assumes "read_string name m = Inr s" and "fst (malloc m) = NULL"
  shows "handle_create name m = Inl NullDeref"
proof -
  have r: "read_string name (snd (malloc m)) = Inr s"
    using assms(1) by (rule read_string_malloc)
  show ?thesis
  proof (cases "fst (malloc (snd (malloc m)))")
    case NULL
    show ?thesis
      using assms(2) strdup_fail [OF r NULL]
      by (simp add: handle_create_def case_prod_beta set_name_def)
  next
    case (Addr d)
    show ?thesis
      using assms(2) strdup_ok [OF r Addr]
      by (simp add: handle_create_def case_prod_beta set_name_def)
  qed
qed

lemma handle_create_no_copy:
  assumes "read_string name m = Inr s" and "fst (malloc m) = Addr a"
    and "fst (malloc (snd (malloc m))) = NULL"
  shows "handle_create name m =
     Inr (Addr a, (snd (malloc (snd (malloc m))))
        \<lparr>heap := (heap (snd (malloc m)))(a \<mapsto> Handle NULL)\<rparr>)"
proof -
  have r: "read_string name (snd (malloc m)) = Inr s"
    using assms(1) by (rule read_string_malloc)
  have h1: "heap (snd (malloc m)) a = Some Uninit"
    using malloc_Addr [OF assms(2)] by simp
  have h2: "heap (snd (malloc (snd (malloc m)))) = heap (snd (malloc m))"
    using assms(3) by (rule malloc_NULL)
  show ?thesis
    using assms(2) strdup_fail [OF r assms(3)] h1 h2
    by (simp add: handle_create_def case_prod_beta set_name_def)
qed

lemma handle_create_copy:
  assumes "read_string name m = Inr s" and "fst (malloc m) = Addr a"
    and "fst (malloc (snd (malloc m))) = Addr d"
  shows "handle_create name m =
     Inr (Addr a, (snd (malloc (snd (malloc m))))
        \<lparr>heap := (heap (snd (malloc m)))(d \<mapsto> Chars (s @ [NUL]), a \<mapsto> Handle (Addr d))\<rparr>)
     \<and> d \<noteq> a \<and> heap (snd (malloc m)) d = None"
proof -
  have r: "read_string name (snd (malloc m)) = Inr s"
    using assms(1) by (rule read_string_malloc)
  have h1: "heap (snd (malloc m)) a = Some Uninit"
    using malloc_Addr [OF assms(2)] by simp
  have h2: "heap (snd (malloc m)) d = None"
    and h3: "heap (snd (malloc (snd (malloc m)))) = (heap (snd (malloc m)))(d \<mapsto> Uninit)"
    using malloc_Addr [OF assms(3)] by simp_all
  have ne: "d \<noteq> a" using h1 h2 by auto
  show ?thesis
    using assms(2) strdup_ok [OF r assms(3)] h1 h2 h3 ne
    by (simp add: handle_create_def case_prod_beta set_name_def)
qed


lemma read_string_before_malloc:
  assumes "read_string p (snd (malloc m)) = Inr s"
  shows "read_string p m = Inr s"
proof -
  obtain a buf where p: "p = Addr a" and live: "heap (snd (malloc m)) a = Some (Chars buf)"
    using read_string_live [OF assms] by blast
  have "heap (snd (malloc m)) a = heap m a"
  proof (cases "fst (malloc m)")
    case NULL
    then show ?thesis by (simp add: malloc_NULL)
  next
    case (Addr d)
    then show ?thesis using malloc_Addr [OF Addr] live by (cases "a = d") simp_all
  qed
  then have "read_string (Addr a) (snd (malloc m)) = read_string (Addr a) m"
    by (rule read_string_heap)
  then show ?thesis using assms p by simp
qed

lemma handle_create_reads_name:
  assumes "handle_create name m = Inr (h, m')"
  shows "\<exists>s. read_string name m = Inr s"
proof (cases "read_string name (snd (malloc m))")
  case (Inl e)
  then show ?thesis
    using assms by (simp add: handle_create_def strdup_def case_prod_beta)
next
  case (Inr s)
  then show ?thesis using read_string_before_malloc by blast
qed

lemma handle_create_valid:
  assumes "handle_create name m = Inr (h, m')"
  shows "\<exists>a p. h = Addr a \<and> heap m' a = Some (Handle p) \<and> a \<in> mallocd m'
           \<and> (p = NULL \<or> (\<exists>d. p = Addr d \<and> d \<noteq> a \<and> heap m' d \<noteq> None
                                    \<and> d \<in> mallocd m'))"
proof -
  obtain s where s: "read_string name m = Inr s"
    using handle_create_reads_name [OF assms] by blast
  show ?thesis
  proof (cases "fst (malloc m)")
    case NULL
    then show ?thesis using handle_create_no_block [OF s NULL] assms by simp
  next
    case (Addr a)
    show ?thesis
    proof (cases "fst (malloc (snd (malloc m)))")
      case NULL
      show ?thesis
        using handle_create_no_copy [OF s Addr NULL] assms
          malloc_Addr_mallocd [OF Addr] malloc_NULL_mallocd [OF NULL]
        by auto
    next
      case d: (Addr d)
      show ?thesis
        using handle_create_copy [OF s Addr d] assms
          malloc_Addr_mallocd [OF Addr] malloc_Addr_mallocd [OF d]
        by auto
    qed
  qed
qed

lemma handle_close_valid:
  assumes "heap m a = Some (Handle p)" and "a \<in> mallocd m"
    and "p = NULL \<or> (\<exists>d. p = Addr d \<and> d \<noteq> a \<and> heap m d \<noteq> None \<and> d \<in> mallocd m)"
  shows "\<exists>m'. handle_close (Addr a) m = Inr (0, m')"
proof (cases p)
  case NULL
  then show ?thesis
    using assms(1) assms(2) by (simp add: handle_close_def get_name_def free_def)
next
  case (Addr d)
  then have "d \<noteq> a" and "heap m d \<noteq> None" and "d \<in> mallocd m"
    using assms(3) by auto
  then show ?thesis
    using assms(1) assms(2) Addr by (auto simp: handle_close_def get_name_def free_def)
qed

lemma handle_close_result: "handle_close h m = Inr (r, m') \<Longrightarrow> r = 0"
  by (auto simp: handle_close_def split: sum.splits)

text \<open>
  Claim C9. \<open>handle_close\<close> returns 0 on every handle that \<open>handle_create\<close> produced:
  called on the handle in the state \<open>handle_create\<close> left, it runs to its end with the
  result 0. It has no other result: whatever the handle and the state, a call that
  returns returns 0.
\<close>

theorem handle_close_returns_0:
  assumes "handle_create name m = Inr (h, m')"
  shows "(\<exists>m''. handle_close h m' = Inr (0, m''))
    \<and> (\<forall>h0 m0 r m1. handle_close h0 m0 = Inr (r, m1) \<longrightarrow> r = 0)"
proof -
  obtain a p where "h = Addr a" and "heap m' a = Some (Handle p)" and "a \<in> mallocd m'"
    and "p = NULL \<or> (\<exists>d. p = Addr d \<and> d \<noteq> a \<and> heap m' d \<noteq> None \<and> d \<in> mallocd m')"
    using handle_create_valid [OF assms] by blast
  then have "\<exists>m''. handle_close h m' = Inr (0, m'')"
    using handle_close_valid by blast
  then show ?thesis using handle_close_result by blast
qed

text \<open>
  Claim C8. Round trip of the name: when \<open>name\<close> points to a terminated buffer holding
  the string \<open>s\<close> and both allocations succeed, \<open>handle_create\<close> returns a handle, and
  \<open>handle_name\<close> on it returns a pointer to a buffer holding \<open>s\<close>. The name is a copy:
  whatever is afterwards stored into the caller's buffer, or if that buffer is freed
  (\<open>v = None\<close>), \<open>handle_name\<close> still returns the same pointer and the string there is
  still \<open>s\<close>.
\<close>

theorem handle_name_round_trip:
  assumes "read_string name m = Inr s"
    and "malloc_succeeds m" and "malloc_succeeds (snd (malloc m))"
  shows "\<exists>h p m'. handle_create name m = Inr (h, m')
      \<and> handle_name h m' = Inr p \<and> read_string p m' = Inr s
      \<and> (\<forall>a v. name = Addr a \<longrightarrow>
            handle_name h (m'\<lparr>heap := (heap m')(a := v)\<rparr>) = Inr p
          \<and> read_string p (m'\<lparr>heap := (heap m')(a := v)\<rparr>) = Inr s)"
proof -
  obtain a where a: "fst (malloc m) = Addr a"
    using assms(2) by (cases "fst (malloc m)") (simp_all add: malloc_succeeds_def)
  obtain d where d: "fst (malloc (snd (malloc m))) = Addr d"
    using assms(3) by (cases "fst (malloc (snd (malloc m)))") (simp_all add: malloc_succeeds_def)
  let ?m' = "(snd (malloc (snd (malloc m))))
        \<lparr>heap := (heap (snd (malloc m)))(d \<mapsto> Chars (s @ [NUL]), a \<mapsto> Handle (Addr d))\<rparr>"
  have c: "handle_create name m = Inr (Addr a, ?m')" and ne: "d \<noteq> a"
    and dfree: "heap (snd (malloc m)) d = None"
    using handle_create_copy [OF assms(1) a d] by simp_all
  obtain n buf where n: "name = Addr n" and live: "heap m n = Some (Chars buf)"
    and s: "s = c_str buf"
    using read_string_live [OF assms(1)] by blast
  have afree: "heap m a = None" using malloc_Addr [OF a] by simp
  have live1: "heap (snd (malloc m)) n = Some (Chars buf)"
    using live by (rule malloc_keeps_live)
  have na: "n \<noteq> a" using live afree by auto
  have nd: "n \<noteq> d" using live1 dfree by auto
  have 1: "handle_name (Addr a) ?m' = Inr (Addr d)"
    by (simp add: handle_name_def get_name_def)
  have 2: "read_string (Addr d) ?m' = Inr s"
    using ne by (simp add: read_string_def s c_str_copy)
  have 3: "handle_name (Addr a) (?m'\<lparr>heap := (heap ?m')(n := v)\<rparr>) = Inr (Addr d)" for v
    using na by (simp add: handle_name_def get_name_def)
  have 4: "read_string (Addr d) (?m'\<lparr>heap := (heap ?m')(n := v)\<rparr>) = Inr s" for v
    using ne nd by (simp add: read_string_def s c_str_copy)
  show ?thesis using c 1 2 3 4 n by blast
qed

text \<open>
  Claim C10, as amended. \<open>handle_create\<close> writes through the result of \<open>malloc\<close> with no
  null check: for a readable \<open>name\<close>, it ends in the null dereference exactly when
  \<open>malloc\<close> returns \<open>NULL\<close>. When \<open>malloc\<close> succeeds it returns the block, whose \<open>name\<close>
  field holds whatever \<open>strdup\<close> returned: the result of \<open>strdup\<close> is stored unchecked,
  \<open>NULL\<close> included, and is not dereferenced.
\<close>

theorem handle_create_unchecked:
  assumes "read_string name m = Inr s"
  shows "(\<not> malloc_succeeds m \<longrightarrow> handle_create name m = Inl NullDeref)
    \<and> (malloc_succeeds m \<longrightarrow>
         (\<exists>m'. handle_create name m = Inr (fst (malloc m), m')
            \<and> handle_name (fst (malloc m)) m' = Inr (fst (malloc (snd (malloc m))))))"
proof (cases "fst (malloc m)")
  case NULL
  then show ?thesis
    using handle_create_no_block [OF assms NULL] by (simp add: malloc_succeeds_def)
next
  case (Addr a)
  show ?thesis
  proof (cases "fst (malloc (snd (malloc m)))")
    case NULL
    show ?thesis
      using handle_create_no_copy [OF assms Addr NULL] Addr NULL
      by (simp add: malloc_succeeds_def handle_name_def get_name_def)
  next
    case d: (Addr d)
    show ?thesis
      using handle_create_copy [OF assms Addr d] Addr d
      by (simp add: malloc_succeeds_def handle_name_def get_name_def)
  qed
qed


theorem handle_name_round_trip_witness:
  "read_string (Addr 1) \<lparr>heap = [1 \<mapsto> Chars (''db'' @ [NUL])], allocs = [Addr 5, Addr 7], mallocd = {}\<rparr> = Inr ''db''
   \<and> malloc_succeeds \<lparr>heap = [1 \<mapsto> Chars (''db'' @ [NUL])], allocs = [Addr 5, Addr 7], mallocd = {}\<rparr>
   \<and> malloc_succeeds (snd (malloc \<lparr>heap = [1 \<mapsto> Chars (''db'' @ [NUL])], allocs = [Addr 5, Addr 7], mallocd = {}\<rparr>))
   \<and> (\<exists>h p m'. handle_create (Addr 1) \<lparr>heap = [1 \<mapsto> Chars (''db'' @ [NUL])], allocs = [Addr 5, Addr 7], mallocd = {}\<rparr> = Inr (h, m')
        \<and> handle_name h m' = Inr p \<and> read_string p m' = Inr ''db''
        \<and> read_string p (m'\<lparr>heap := (heap m')(1 := None)\<rparr>) = Inr ''db'')"
proof -
  let ?m = "\<lparr>heap = [1 \<mapsto> Chars (''db'' @ [NUL])], allocs = [Addr 5, Addr 7], mallocd = {}\<rparr>"
  have r: "read_string (Addr 1) ?m = Inr ''db''"
    by (simp add: read_string_def c_str_def NUL_def)
  have a: "malloc_succeeds ?m"
    by (simp add: malloc_succeeds_def malloc_def)
  have b: "malloc_succeeds (snd (malloc ?m))"
    by (simp add: malloc_succeeds_def malloc_def)
  show ?thesis
    using handle_name_round_trip [OF r a b] r a b by blast
qed

theorem handle_close_returns_0_witness:
  "handle_create (Addr 1) \<lparr>heap = [1 \<mapsto> Chars (''db'' @ [NUL])], allocs = [Addr 5, Addr 7], mallocd = {}\<rparr>
     = Inr (Addr 5, \<lparr>heap = [1 \<mapsto> Chars (''db'' @ [NUL]), 7 \<mapsto> Chars (''db'' @ [NUL]), 5 \<mapsto> Handle (Addr 7)],
                     allocs = [], mallocd = {7, 5}\<rparr>)
   \<and> (\<exists>m''. handle_close (Addr 5)
          \<lparr>heap = [1 \<mapsto> Chars (''db'' @ [NUL]), 7 \<mapsto> Chars (''db'' @ [NUL]), 5 \<mapsto> Handle (Addr 7)],
           allocs = [], mallocd = {7, 5}\<rparr> = Inr (0, m''))"
proof -
  let ?m = "\<lparr>heap = [1 \<mapsto> Chars (''db'' @ [NUL])], allocs = [Addr 5, Addr 7], mallocd = {}\<rparr>"
  let ?m' = "\<lparr>heap = [1 \<mapsto> Chars (''db'' @ [NUL]), 7 \<mapsto> Chars (''db'' @ [NUL]), 5 \<mapsto> Handle (Addr 7)],
                     allocs = [], mallocd = {7, 5}\<rparr>"
  have c: "handle_create (Addr 1) ?m = Inr (Addr 5, ?m')"
    by (simp add: handle_create_def malloc_def strdup_def read_string_def c_str_def NUL_def
        set_name_def)
  show ?thesis using handle_close_returns_0 [OF c] c by blast
qed

text \<open>
  The claim C10 as stated, that \<open>handle_create\<close> is free of errors only when both
  allocations succeed, fails where \<open>malloc\<close> succeeds and the allocation inside \<open>strdup\<close>
  does not: \<open>handle_create\<close> returns the handle, with a null name.
\<close>

theorem handle_create_both_allocations_counterexample:
  "map_sum id fst (handle_create (Addr 1)
       \<lparr>heap = [1 \<mapsto> Chars (''db'' @ [NUL])], allocs = [Addr 5, NULL], mallocd = {}\<rparr>) = Inr (Addr 5)
   \<and> \<not> malloc_succeeds (snd (malloc
       \<lparr>heap = [1 \<mapsto> Chars (''db'' @ [NUL])], allocs = [Addr 5, NULL], mallocd = {}\<rparr>))"
  by (simp add: handle_create_def malloc_def strdup_def read_string_def c_str_def NUL_def
      set_name_def malloc_succeeds_def)

theorem handle_create_unchecked_witness:
  "read_string (Addr 1) \<lparr>heap = [1 \<mapsto> Chars (''db'' @ [NUL])], allocs = [NULL, Addr 7], mallocd = {}\<rparr> = Inr ''db''
   \<and> \<not> malloc_succeeds \<lparr>heap = [1 \<mapsto> Chars (''db'' @ [NUL])], allocs = [NULL, Addr 7], mallocd = {}\<rparr>
   \<and> handle_create (Addr 1) \<lparr>heap = [1 \<mapsto> Chars (''db'' @ [NUL])], allocs = [NULL, Addr 7], mallocd = {}\<rparr>
       = Inl NullDeref"
proof -
  let ?m = "\<lparr>heap = [1 \<mapsto> Chars (''db'' @ [NUL])], allocs = [NULL, Addr 7], mallocd = {}\<rparr>"
  have r: "read_string (Addr 1) ?m = Inr ''db''"
    by (simp add: read_string_def c_str_def NUL_def)
  have a: "\<not> malloc_succeeds ?m"
    by (simp add: malloc_succeeds_def malloc_def)
  show ?thesis using handle_create_unchecked [OF r] r a by blast
qed


section \<open>Properties of the binding generator\<close>

subsection \<open>Processing order\<close>

lemma keys_tagged: "map fst (map (\<lambda>(i, it). (i, it, f it)) xs) = map fst xs"
  by (induction xs) (simp_all add: case_prod_beta)

lemma untagged: "map snd (map (\<lambda>(i, it). (i, it, f it)) xs) = map (\<lambda>it. (it, f it)) (map snd xs)"
  by (induction xs) (simp_all add: case_prod_beta)

lemma resorted:
  assumes "reorders sched"
  shows "map snd (sort_key fst (map (\<lambda>(i, it). (i, it, f it))
            (sched (zip [0..<length items] items))))
         = map (\<lambda>it. (it, f it)) items"
proof -
  let ?zs = "zip [0..<length items] items"
  let ?g = "\<lambda>(i, it). (i, it, f it)"
  have m: "mset (map ?g (sched ?zs)) = mset (map ?g ?zs)"
    using assms by (simp add: reorders_def)
  have keys: "map fst ?zs = [0..<length items]" by simp
  have d: "distinct (map fst (map ?g ?zs))"
    by (simp only: keys_tagged keys distinct_upt)
  have "mset (map fst (map ?g (sched ?zs))) = mset (map fst (map ?g ?zs))"
    using m by (simp only: mset_map)
  then have "distinct (map fst (map ?g (sched ?zs))) \<longleftrightarrow> distinct (map fst (map ?g ?zs))"
    by (rule mset_eq_imp_distinct_iff)
  then have "distinct (map fst (map ?g (sched ?zs)))"
    using d by blast
  then have inj: "inj_on fst (set (map ?g (sched ?zs)))"
    by (simp only: distinct_map)
  have srt: "sorted (map fst (map ?g ?zs))"
    by (simp only: keys_tagged keys sorted_upt)
  have "sort_key fst (map ?g (sched ?zs)) = map ?g ?zs"
    using m inj srt by (rule sort_key_inj_key_eq)
  moreover have "map snd ?zs = items" by simp
  ultimately show ?thesis by (simp only: untagged)
qed


lemma outcomes_in_source_order:
  "reorders sched \<Longrightarrow> outcomes lib sched items = in_source_order lib items"
  by (simp only: outcomes_def in_source_order_def resorted)

lemma skip_comment_line: "ln \<le> fst (skip_comment ln cs)"
proof (induction ln cs rule: skip_comment.induct)
  case (3 ln c d cs)
  then show ?case by (auto split: if_splits intro: le_trans)
qed simp_all

lemma tokenize_lines:
  "sorted (map fst (tokenize ln cs)) \<and> (\<forall>t \<in> set (tokenize ln cs). ln \<le> fst t)"
proof (induction ln cs rule: tokenize.induct)
  case (1 ln)
  show ?case by simp
next
  case (2 ln c cs)
  show ?case
  proof (cases "c = newline")
    case True
    then show ?thesis using 2(1) by (auto intro: Suc_leD)
  next
    case nl: False
    show ?thesis
    proof (cases "is_space c")
      case True
      then show ?thesis using nl 2(2) by simp
    next
      case sp: False
      show ?thesis
      proof (cases "c = CHR ''#''")
        case True
        then show ?thesis using nl sp 2(3) by simp
      next
        case hs: False
        show ?thesis
        proof (cases "c = CHR ''/'' \<and> take 1 cs = ''/''")
          case True
          then show ?thesis using nl sp hs 2(4) by simp
        next
          case lc: False
          show ?thesis
          proof (cases "c = CHR ''/'' \<and> take 1 cs = ''*''")
            case True
            have le: "ln \<le> fst (skip_comment ln (tl cs))" by (rule skip_comment_line)
            have ih: "sorted (map fst (tokenize (fst (skip_comment ln (tl cs))) (snd (skip_comment ln (tl cs)))))
              \<and> (\<forall>t \<in> set (tokenize (fst (skip_comment ln (tl cs))) (snd (skip_comment ln (tl cs)))).
                    fst (skip_comment ln (tl cs)) \<le> fst t)"
              using 2(5) nl sp hs lc True by blast
            have eq: "tokenize ln (c # cs) = tokenize (fst (skip_comment ln (tl cs))) (snd (skip_comment ln (tl cs)))"
              using nl sp hs lc True by auto
            show ?thesis unfolding eq using ih le by (auto intro: le_trans)
          next
            case bc: False
            show ?thesis
            proof (cases "ident_start c")
              case True
              have ih: "sorted (map fst (tokenize ln (dropWhile ident_char cs)))
                \<and> (\<forall>t \<in> set (tokenize ln (dropWhile ident_char cs)). ln \<le> fst t)"
                using 2(6) nl sp hs lc bc True by blast
              have eq: "tokenize ln (c # cs) =
                  (ln, Ident (c # takeWhile ident_char cs)) # tokenize ln (dropWhile ident_char cs)"
                using nl sp hs lc bc True by auto
              show ?thesis unfolding eq using ih by auto
            next
              case False
              have ih: "sorted (map fst (tokenize ln cs)) \<and> (\<forall>t \<in> set (tokenize ln cs). ln \<le> fst t)"
                using 2(7) nl sp hs lc bc False by blast
              have eq: "tokenize ln (c # cs) = (ln, punct c) # tokenize ln cs"
                using nl sp hs lc bc False by auto
              show ?thesis unfolding eq using ih by auto
            qed
          qed
        qed
      qed
    qed
  qed
qed


lemma split_stmts_line_of_token:
  "s \<in> set (split_stmts depth acc ts) \<Longrightarrow> fst s \<in> fst ` (set acc \<union> set ts)"
proof (induction ts arbitrary: depth acc)
  case Nil
  then show ?case by (cases "acc = []") auto
next
  case (Cons t ts)
  show ?case
  proof (cases "snd t = Semi \<and> depth = 0")
    case True
    then have "s = (fst (last (t # acc)), map snd (rev (t # acc)))
        \<or> s \<in> set (split_stmts 0 [] ts)"
      using Cons.prems by simp
    then show ?thesis
    proof
      assume "s = (fst (last (t # acc)), map snd (rev (t # acc)))"
      then have "fst s = fst (last (t # acc))" by simp
      moreover have "last (t # acc) \<in> set (t # acc)" by (rule last_in_set) simp
      ultimately show ?thesis by auto
    next
      assume "s \<in> set (split_stmts 0 [] ts)"
      then have "fst s \<in> fst ` (set [] \<union> set ts)" by (rule Cons.IH)
      then show ?thesis by auto
    qed
  next
    case False
    have eq: "split_stmts depth acc (t # ts)
        = split_stmts (if snd t = LBrace then Suc depth
                       else if snd t = RBrace then depth - 1 else depth) (t # acc) ts"
      by (simp only: split_stmts.simps if_not_P [OF False])
    have "fst s \<in> fst ` (set (t # acc) \<union> set ts)"
      using Cons.prems unfolding eq by (rule Cons.IH)
    then show ?thesis by auto
  qed
qed

lemma split_stmts_sorted:
  "sorted (map fst (rev acc @ ts)) \<Longrightarrow> sorted (map fst (split_stmts depth acc ts))"
proof (induction ts arbitrary: depth acc)
  case Nil
  then show ?case by simp
next
  case (Cons t ts)
  show ?case
  proof (cases "snd t = Semi \<and> depth = 0")
    case True
    have whole: "sorted (map fst (rev (t # acc)) @ map fst ts)"
      using Cons.prems by simp
    then have tail: "sorted (map fst (rev [] @ ts))"
      by (simp add: sorted_append)
    have first: "last (t # acc) \<in> set (rev (t # acc))"
      using last_in_set [of "t # acc"] by simp
    have "fst (last (t # acc)) \<le> fst s" if "s \<in> set (split_stmts 0 [] ts)" for s
    proof -
      have "fst s \<in> fst ` set ts"
        using split_stmts_line_of_token [OF that] by simp
      then have a: "fst s \<in> set (map fst ts)" by simp
      have "fst (last (t # acc)) \<in> fst ` set (rev (t # acc))"
        using first by (rule imageI)
      then have b: "fst (last (t # acc)) \<in> set (map fst (rev (t # acc)))"
        by (simp only: set_map)
      have "\<forall>x \<in> set (map fst (rev (t # acc))). \<forall>y \<in> set (map fst ts). x \<le> y"
        using whole by (simp only: sorted_append) blast
      then show ?thesis using a b by blast
    qed
    then show ?thesis
      using True Cons.IH [OF tail] by auto
  next
    case False
    have eq: "split_stmts depth acc (t # ts)
        = split_stmts (if snd t = LBrace then Suc depth
                       else if snd t = RBrace then depth - 1 else depth) (t # acc) ts"
      by (simp only: split_stmts.simps if_not_P [OF False])
    have "sorted (map fst (rev (t # acc) @ ts))" using Cons.prems by simp
    then show ?thesis unfolding eq by (rule Cons.IH)
  qed
qed

lemma split_stmts_tokens:
  "concat (map snd (split_stmts depth acc ts)) = map snd (rev acc @ ts)"
proof (induction ts arbitrary: depth acc)
  case Nil
  then show ?case by simp
next
  case (Cons t ts)
  show ?case
  proof (cases "snd t = Semi \<and> depth = 0")
    case True
    then show ?thesis using Cons.IH [of 0 "[]"] by simp
  next
    case False
    have eq: "split_stmts depth acc (t # ts)
        = split_stmts (if snd t = LBrace then Suc depth
                       else if snd t = RBrace then depth - 1 else depth) (t # acc) ts"
      by (simp only: split_stmts.simps if_not_P [OF False])
    show ?thesis unfolding eq using Cons.IH [of _ "t # acc"] by simp
  qed
qed

lemma split_stmts_nonempty: "s \<in> set (split_stmts depth acc ts) \<Longrightarrow> snd s \<noteq> []"
proof (induction ts arbitrary: depth acc)
  case Nil
  then show ?case by (cases "acc = []") auto
next
  case (Cons t ts)
  show ?case
  proof (cases "snd t = Semi \<and> depth = 0")
    case True
    then have "s = (fst (last (t # acc)), map snd (rev (t # acc)))
        \<or> s \<in> set (split_stmts 0 [] ts)"
      using Cons.prems by simp
    then show ?thesis using Cons.IH by auto
  next
    case False
    have eq: "split_stmts depth acc (t # ts)
        = split_stmts (if snd t = LBrace then Suc depth
                       else if snd t = RBrace then depth - 1 else depth) (t # acc) ts"
      by (simp only: split_stmts.simps if_not_P [OF False])
    show ?thesis using Cons.prems unfolding eq by (rule Cons.IH)
  qed
qed

lemma statements_sorted: "sorted (map fst (statements (tokenize ln cs)))"
  using split_stmts_sorted [of "[]" "tokenize ln cs" 0] tokenize_lines [of ln cs]
  by (simp add: statements_def)

lemma statements_tokens: "concat (map snd (statements ts)) = map snd ts"
  by (simp add: statements_def split_stmts_tokens)

lemma parse_statements_lines: "map item_line (parse_statements known ss) = map fst ss"
  by (induction ss arbitrary: known) simp_all

lemma parse_statements_length: "length (parse_statements known ss) = length ss"
  by (induction ss arbitrary: known) simp_all

lemma parse_header_sorted: "sorted (map item_line (parse_header known text))"
  by (simp only: parse_header_def parse_statements_lines statements_sorted)


lemma generate_in_source_order:
  "reorders sched \<Longrightarrow>
     generate lib known sched text = collect (in_source_order lib (parse_header known text))"
  by (simp only: generate_def process_def parse_header_def outcomes_in_source_order)

lemma translate_line: "translate lib it = Inl d \<Longrightarrow> diag_line d = item_line it"
  by (auto simp: translate_def diagnose_def split: option.splits sum.splits)

lemma unique_symbols_length: "length (unique_symbols seen rs) = length rs"
  by (induction seen rs rule: unique_symbols.induct) (simp_all split: option.splits)

lemma unique_symbols_pointwise:
  "list_all2 (\<lambda>r out. case out of
                 Inl d \<Rightarrow> snd r = Inl d \<or> diag_line d = item_line (fst r)
               | Inr u \<Rightarrow> snd r = Inr u)
     rs (unique_symbols seen rs)"
  by (induction seen rs rule: unique_symbols.induct)
    (simp_all add: diagnose_def split: option.splits)

lemma unique_symbols_nth:
  assumes "k < length rs"
  shows "case unique_symbols seen rs ! k of
           Inl d \<Rightarrow> snd (rs ! k) = Inl d \<or> diag_line d = item_line (fst (rs ! k))
         | Inr u \<Rightarrow> snd (rs ! k) = Inr u"
  using list_all2_nthD [OF unique_symbols_pointwise assms] .

lemma in_source_order_nth:
  assumes "k < length items"
  shows "case in_source_order lib items ! k of
           Inl d \<Rightarrow> diag_line d = item_line (items ! k)
         | Inr u \<Rightarrow> translate lib (items ! k) = Inr u"
proof -
  let ?rs = "map (\<lambda>it. (it, translate lib it)) items"
  have k: "k < length ?rs" using assms by simp
  have nth: "?rs ! k = (items ! k, translate lib (items ! k))"
    using assms by simp
  show ?thesis
    using unique_symbols_nth [OF k, of "[]"] translate_line [of lib "items ! k"]
    unfolding in_source_order_def nth
    by (auto split: sum.splits)
qed

lemma in_source_order_length: "length (in_source_order lib items) = length items"
  by (simp add: in_source_order_def unique_symbols_length)


lemma subseq_of_suffix: "subseq xs ys \<Longrightarrow> suffix ys zs \<Longrightarrow> subseq xs zs"
  using suffix_imp_subseq subseq_order.trans by blast

lemma skip_comment_suffix: "suffix (snd (skip_comment ln cs)) cs"
proof (induction ln cs rule: skip_comment.induct)
  case (1 ln)
  show ?case by simp
next
  case (2 ln c)
  show ?case by simp
next
  case (3 ln c d cs)
  show ?case
  proof (cases "c = CHR ''*'' \<and> d = CHR ''/''")
    case True
    then show ?thesis by (simp add: suffix_ConsI)
  next
    case False
    then have "suffix (snd (skip_comment (if c = newline then Suc ln else ln) (d # cs))) (d # cs)"
      using 3 by blast
    then show ?thesis using False by (auto intro: suffix_ConsI)
  qed
qed

lemma token_text_punct: "token_text (punct c) = [c]"
  by (simp add: punct_def)

lemma tokenize_subseq:
  "subseq (concat (map (\<lambda>t. token_text (snd t)) (tokenize ln cs))) cs"
proof (induction ln cs rule: tokenize.induct)
  case (1 ln)
  show ?case by simp
next
  case (2 ln c cs)
  let ?T = "\<lambda>ln cs. concat (map (\<lambda>t. token_text (snd t)) (tokenize ln cs))"
  show ?case
  proof (cases "c = newline")
    case True
    then have "subseq (?T (Suc ln) cs) cs" using 2(1) by blast
    then have "subseq (?T (Suc ln) cs) (c # cs)" by (rule list_emb_Cons)
    then show ?thesis using True by simp
  next
    case nl: False
    show ?thesis
    proof (cases "is_space c")
      case True
      then have "subseq (?T ln cs) cs" using nl 2(2) by blast
      then have "subseq (?T ln cs) (c # cs)" by (rule list_emb_Cons)
      then show ?thesis using nl True by simp
    next
      case sp: False
      show ?thesis
      proof (cases "c = CHR ''#''")
        case True
        then have "subseq (?T ln (skip_line cs)) (skip_line cs)" using nl sp 2(3) by blast
        moreover have "suffix (skip_line cs) (c # cs)"
          by (simp add: skip_line_def suffix_dropWhile suffix_ConsI)
        ultimately have "subseq (?T ln (skip_line cs)) (c # cs)" by (rule subseq_of_suffix)
        then show ?thesis using nl sp True by simp
      next
        case hs: False
        show ?thesis
        proof (cases "c = CHR ''/'' \<and> take 1 cs = ''/''")
          case True
          then have "subseq (?T ln (skip_line cs)) (skip_line cs)"
            using nl sp hs 2(4) by blast
          moreover have "suffix (skip_line cs) (c # cs)"
            by (simp add: skip_line_def suffix_dropWhile suffix_ConsI)
          ultimately have "subseq (?T ln (skip_line cs)) (c # cs)" by (rule subseq_of_suffix)
          moreover have "tokenize ln (c # cs) = tokenize ln (skip_line cs)"
            using nl sp hs True by auto
          ultimately show ?thesis by simp
        next
          case lc: False
          show ?thesis
          proof (cases "c = CHR ''/'' \<and> take 1 cs = ''*''")
            case True
            let ?l = "fst (skip_comment ln (tl cs))"
            let ?r = "snd (skip_comment ln (tl cs))"
            have "subseq (?T ?l ?r) ?r" using 2(5) nl sp hs lc True by blast
            moreover have "suffix ?r (c # cs)"
            proof -
              have "suffix ?r (tl cs)" by (rule skip_comment_suffix)
              moreover have "suffix (tl cs) cs" by simp
              ultimately have "suffix ?r cs" by (rule suffix_order.trans)
              then show ?thesis by (rule suffix_ConsI)
            qed
            ultimately have "subseq (?T ?l ?r) (c # cs)" by (rule subseq_of_suffix)
            moreover have "tokenize ln (c # cs) = tokenize ?l ?r"
              using nl sp hs lc True by auto
            ultimately show ?thesis by simp
          next
            case bc: False
            show ?thesis
            proof (cases "ident_start c")
              case True
              have ih: "subseq (?T ln (dropWhile ident_char cs)) (dropWhile ident_char cs)"
                using 2(6) nl sp hs lc bc True by blast
              have eq: "tokenize ln (c # cs) =
                  (ln, Ident (c # takeWhile ident_char cs)) # tokenize ln (dropWhile ident_char cs)"
                using nl sp hs lc bc True by auto
              have "subseq (takeWhile ident_char cs @ ?T ln (dropWhile ident_char cs))
                  (takeWhile ident_char cs @ dropWhile ident_char cs)"
                using ih by (simp only: subseq_append')
              then have "subseq (c # takeWhile ident_char cs @ ?T ln (dropWhile ident_char cs))
                  (c # cs)"
                by simp
              then show ?thesis unfolding eq by simp
            next
              case False
              have ih: "subseq (?T ln cs) cs"
                using 2(7) nl sp hs lc bc False by blast
              have eq: "tokenize ln (c # cs) = (ln, punct c) # tokenize ln cs"
                using nl sp hs lc bc False by auto
              show ?thesis unfolding eq using ih by (simp add: token_text_punct)
            qed
          qed
        qed
      qed
    qed
  qed
qed

lemma parse_statements_tokens: "map item_tokens (parse_statements known ss) = map snd ss"
  by (induction ss arbitrary: known) simp_all

lemma parse_statements_decl:
  "it \<in> set (parse_statements known ss) \<Longrightarrow> item_decl it = parse_statement (item_tokens it)"
  by (induction ss arbitrary: known) auto

lemma parse_header_tokens:
  "concat (map item_tokens (parse_header known text)) = map snd (tokenize 1 text)"
  by (simp add: parse_header_def parse_statements_tokens statements_tokens)

lemma parse_header_subseq:
  "subseq (concat (map token_text (concat (map item_tokens (parse_header known text))))) text"
  using tokenize_subseq [of 1 "text"]
  by (simp only: parse_header_tokens map_map comp_def)

lemma parse_header_nonempty:
  assumes "it \<in> set (parse_header known text)"
  shows "item_tokens it \<noteq> []"
proof -
  have "item_tokens it \<in> set (map item_tokens (parse_header known text))"
    using assms by simp
  then have "item_tokens it \<in> snd ` set (statements (tokenize 1 text))"
    by (simp add: parse_header_def parse_statements_tokens)
  then obtain s where "s \<in> set (split_stmts 0 [] (tokenize 1 text))"
    and "item_tokens it = snd s"
    unfolding statements_def by blast
  then show ?thesis
    using split_stmts_nonempty [of s 0 "[]" "tokenize 1 text"] by simp
qed


lemma units_of_filter: "units_of rs = map projr (filter (\<lambda>r. \<not> isl r) rs)"
  by (induction rs rule: units_of.induct) simp_all

lemma diagnostics_of_filter: "diagnostics_of rs = map projl (filter isl rs)"
  by (induction rs rule: diagnostics_of.induct) simp_all

text \<open>
  Claim C7. Source order. The items the parser returns are in the order of the header:
  their tokens, taken item after item, are written in the header text in that order
  (they form a subsequence of it), every item holds at least one token and the
  declaration parsed from its own tokens, and the line numbers never decrease. Whatever
  order the schedule translates the items in, the run is the run that takes them in
  source order: it has one result for each statement, the result at position \<open>k\<close> is
  that of statement \<open>k\<close> (its diagnostic, on its line, or the unit its translation
  gives), the units of the run are the units among these results and its diagnostics the
  diagnostics among them, each in that order, and the generated file is the texts of
  these units, one after the other in that order.
\<close>

theorem generate_source_order:
  assumes "reorders sched"
  shows "subseq (concat (map token_text (concat (map item_tokens (parse_header known text)))))
           text
    \<and> (\<forall>it \<in> set (parse_header known text).
          item_tokens it \<noteq> [] \<and> item_decl it = parse_statement (item_tokens it))
    \<and> sorted (map item_line (parse_header known text))
    \<and> generate lib known sched text
        = collect (in_source_order lib (parse_header known text))
    \<and> length (in_source_order lib (parse_header known text))
        = length (parse_header known text)
    \<and> (\<forall>k < length (parse_header known text).
          case in_source_order lib (parse_header known text) ! k of
            Inl d \<Rightarrow> diag_line d = item_line (parse_header known text ! k)
          | Inr u \<Rightarrow> translate lib (parse_header known text ! k) = Inr u)
    \<and> run_units (generate lib known sched text)
        = map projr (filter (\<lambda>r. \<not> isl r) (in_source_order lib (parse_header known text)))
    \<and> run_diagnostics (generate lib known sched text)
        = map projl (filter isl (in_source_order lib (parse_header known text)))
    \<and> run_output (generate lib known sched text)
        = concat (map unit_text (run_units (generate lib known sched text)))"
proof -
  let ?items = "parse_header known text"
  have g: "generate lib known sched text = collect (in_source_order lib ?items)"
    using assms by (rule generate_in_source_order)
  have 1: "subseq (concat (map token_text (concat (map item_tokens ?items)))) text"
    by (rule parse_header_subseq)
  have 2: "\<forall>it \<in> set ?items.
      item_tokens it \<noteq> [] \<and> item_decl it = parse_statement (item_tokens it)"
    using parse_header_nonempty parse_statements_decl
    unfolding parse_header_def by blast
  have 3: "sorted (map item_line ?items)" by (rule parse_header_sorted)
  have 4: "length (in_source_order lib ?items) = length ?items"
    by (rule in_source_order_length)
  have 5: "\<forall>k < length ?items.
          case in_source_order lib ?items ! k of
            Inl d \<Rightarrow> diag_line d = item_line (?items ! k)
          | Inr u \<Rightarrow> translate lib (?items ! k) = Inr u"
    using in_source_order_nth by blast
  have 6: "run_units (collect (in_source_order lib ?items))
      = map projr (filter (\<lambda>r. \<not> isl r) (in_source_order lib ?items))"
    by (simp add: collect_def units_of_filter)
  have 7: "run_diagnostics (collect (in_source_order lib ?items))
      = map projl (filter isl (in_source_order lib ?items))"
    by (simp add: collect_def diagnostics_of_filter)
  have 8: "run_output (collect (in_source_order lib ?items))
      = concat (map unit_text (run_units (collect (in_source_order lib ?items))))"
    by (simp add: collect_def)
  show ?thesis
    unfolding g
    apply (intro conjI)
    apply (rule 1)
    apply (rule 2)
    apply (rule 3)
    apply (rule refl)
    apply (rule 4)
    apply (rule 5)
    apply (rule 6)
    apply (rule 7)
    apply (rule 8)
    done
qed

theorem generate_source_order_witness:
  "reorders rev
   \<and> subseq (concat (map token_text (concat (map item_tokens
         (parse_header [] ''int f(int a); int g(int b); int h(int c);'')))))
       ''int f(int a); int g(int b); int h(int c);''
   \<and> generate ''lean'' [] rev ''int f(int a); int g(int b); int h(int c);''
       = collect (in_source_order ''lean''
           (parse_header [] ''int f(int a); int g(int b); int h(int c);''))
   \<and> map unit_symbol (run_units
         (generate ''lean'' [] rev ''int f(int a); int g(int b); int h(int c);''))
       = [''f'', ''g'', ''h'']
   \<and> map item_line (parse_header [] ''int f(int a); int g(int b); int h(int c);'')
       = [1, 1, 1]
   \<and> run_output (generate ''lean'' [] rev ''int f(int a); int g(int b); int h(int c);'')
       = ''uint32_t lean_f(uint32_t a) {\<newline>    return (uint32_t)f((int)a);\<newline>}\<newline>uint32_t lean_g(uint32_t b) {\<newline>    return (uint32_t)g((int)b);\<newline>}\<newline>uint32_t lean_h(uint32_t c) {\<newline>    return (uint32_t)h((int)c);\<newline>}\<newline>''"
proof -
  let ?text = "''int f(int a); int g(int b); int h(int c);''"
  have r: "reorders rev" by (simp add: reorders_def)
  have u: "map unit_symbol (run_units (generate ''lean'' [] rev ?text)) = [''f'', ''g'', ''h'']"
    by code_simp
  have l: "map item_line (parse_header [] ?text) = [1, 1, 1]"
    by code_simp
  have o: "run_output (generate ''lean'' [] rev ?text)
      = ''uint32_t lean_f(uint32_t a) {\<newline>    return (uint32_t)f((int)a);\<newline>}\<newline>uint32_t lean_g(uint32_t b) {\<newline>    return (uint32_t)g((int)b);\<newline>}\<newline>uint32_t lean_h(uint32_t c) {\<newline>    return (uint32_t)h((int)c);\<newline>}\<newline>''"
    by code_simp
  have "subseq (concat (map token_text (concat (map item_tokens (parse_header [] ?text)))))
           ?text
   \<and> generate ''lean'' [] rev ?text
       = collect (in_source_order ''lean'' (parse_header [] ?text))"
    using generate_source_order [OF r, of "[]" ?text "''lean''"]
    by (elim conjE) (intro conjI)
  then show ?thesis using r u l o by (elim conjE) (intro conjI)
qed

lemma map_params_consistent:
  "map_params ps = Inr ms \<Longrightarrow>
     map (\<lambda>(n, t, m). (n, t)) ms = ps \<and> list_all (\<lambda>(n, t, m). map_type t = Inr m) ms"
proof (induction ps arbitrary: ms)
  case Nil
  then show ?case by simp
next
  case (Cons p ps)
  obtain n t where p: "p = (n, t)" by (cases p)
  show ?case
    using Cons.prems Cons.IH unfolding p
    by (auto split: sum.splits)
qed

text \<open>
  Claim C6. Determinism. Two runs on the same header text, the same prefix and the same
  registrations give the same result, generated file included, whatever the order each
  of them processes the declarations in. The mapping is a function of the type alone:
  wherever the Mapper attaches a mapping to a parameter or to a return type, it is
  \<open>map_type\<close> of that type.
\<close>

theorem generate_deterministic:
  assumes "reorders sched1" and "reorders sched2"
  shows "generate lib known sched1 text = generate lib known sched2 text
    \<and> (\<forall>name ps ret ms r.
          map_declaration (FunctionDecl name ps ret) = Inr (MappedFunction name ms r) \<longrightarrow>
            list_all (\<lambda>(n, t, m). map_type t = Inr m) ms \<and> map_type (fst r) = Inr (snd r))"
proof -
  have "generate lib known sched1 text = generate lib known sched2 text"
    using assms by (simp only: generate_in_source_order)
  moreover have "list_all (\<lambda>(n, t, m). map_type t = Inr m) ms \<and> map_type (fst r) = Inr (snd r)"
    if "map_declaration (FunctionDecl name ps ret) = Inr (MappedFunction name ms r)"
    for name ps ret ms r
    using that map_params_consistent [of ps ms]
    by (auto split: sum.splits)
  ultimately show ?thesis by blast
qed

theorem generate_deterministic_witness:
  "reorders rev \<and> reorders (\<lambda>xs. xs)
   \<and> generate ''lean_mixed_api'' [] rev mixed_api_h
       = generate ''lean_mixed_api'' [] (\<lambda>xs. xs) mixed_api_h"
proof -
  have r: "reorders rev" by (simp add: reorders_def)
  have i: "reorders (\<lambda>xs. xs)" by (simp add: reorders_def)
  show ?thesis
    using generate_deterministic [OF r i, of "''lean_mixed_api''" "[]" mixed_api_h] r i
    by (elim conjE) (intro conjI)
qed



lemma units_diagnostics_length: "length (units_of rs) + length (diagnostics_of rs) = length rs"
  by (induction rs rule: units_of.induct) simp_all

lemma units_of_member: "Inr u \<in> set rs \<Longrightarrow> u \<in> set (units_of rs)"
  by (induction rs rule: units_of.induct) auto

lemma diagnostics_of_member: "Inl d \<in> set rs \<Longrightarrow> d \<in> set (diagnostics_of rs)"
  by (induction rs rule: diagnostics_of.induct) auto

lemma unique_symbols_keeps:
  "(it, Inr u) \<in> set rs \<Longrightarrow>
     Inr u \<in> set (unique_symbols seen rs)
     \<or> Inl (diagnose it DuplicateSymbolError) \<in> set (unique_symbols seen rs)"
proof (induction seen rs rule: unique_symbols.induct)
  case (1 seen)
  then show ?case by simp
next
  case (2 seen it' d rs)
  then show ?case by auto
next
  case (3 seen it' u' rs)
  show ?case
  proof (cases "unit_adapter u'")
    case None
    then show ?thesis using 3(1) 3(4) by auto
  next
    case (Some a)
    show ?thesis
    proof (cases "adapter_symbol a \<in> set seen")
      case True
      then show ?thesis using Some 3(2) 3(4) by auto
    next
      case False
      then show ?thesis using Some 3(3) 3(4) by auto
    qed
  qed
qed

text \<open>
  Claim C5. Exit status. A run fails if and only if it produced at least one
  diagnostic. Failing or not, the generated file is the text of all the units of the
  run, every statement gave one unit or one diagnostic, and every declaration that
  translates has its unit among them, unless it is the later of two declarations of one
  symbol, which has its \<open>DuplicateSymbolError\<close> among the diagnostics.
\<close>

theorem generate_exit_status:
  assumes "reorders sched"
  shows "(run_failed (generate lib known sched text)
            \<longleftrightarrow> run_diagnostics (generate lib known sched text) \<noteq> [])
    \<and> run_output (generate lib known sched text)
        = concat (map unit_text (run_units (generate lib known sched text)))
    \<and> length (run_units (generate lib known sched text))
        + length (run_diagnostics (generate lib known sched text))
        = length (parse_header known text)
    \<and> (\<forall>it \<in> set (parse_header known text). \<forall>u. translate lib it = Inr u \<longrightarrow>
          u \<in> set (run_units (generate lib known sched text))
          \<or> diagnose it DuplicateSymbolError
               \<in> set (run_diagnostics (generate lib known sched text)))"
proof -
  let ?items = "parse_header known text"
  let ?os = "in_source_order lib ?items"
  have g: "generate lib known sched text = collect ?os"
    using assms by (rule generate_in_source_order)
  have 1: "run_failed (collect ?os) \<longleftrightarrow> run_diagnostics (collect ?os) \<noteq> []"
    by (simp add: collect_def)
  have 2: "run_output (collect ?os) = concat (map unit_text (run_units (collect ?os)))"
    by (simp add: collect_def)
  have 3: "length (run_units (collect ?os)) + length (run_diagnostics (collect ?os))
      = length ?items"
    by (simp add: collect_def units_diagnostics_length in_source_order_length)
  have 4: "u \<in> set (run_units (collect ?os))
      \<or> diagnose it DuplicateSymbolError \<in> set (run_diagnostics (collect ?os))"
    if "it \<in> set ?items" and "translate lib it = Inr u" for it u
  proof -
    have "(it, Inr u) \<in> set (map (\<lambda>it. (it, translate lib it)) ?items)"
      using that by force
    then have "Inr u \<in> set ?os \<or> Inl (diagnose it DuplicateSymbolError) \<in> set ?os"
      unfolding in_source_order_def by (rule unique_symbols_keeps)
    then show ?thesis
      using units_of_member diagnostics_of_member by (auto simp: collect_def)
  qed
  show ?thesis unfolding g using 1 2 3 4 by blast
qed

theorem generate_exit_status_witness:
  "reorders rev
   \<and> run_failed (generate ''lean'' [] rev ''int f(int a);\<newline>int g(int a, ...);'')
   \<and> run_diagnostics (generate ''lean'' [] rev ''int f(int a);\<newline>int g(int a, ...);'') \<noteq> []
   \<and> run_output (generate ''lean'' [] rev ''int f(int a);\<newline>int g(int a, ...);'')
       = concat (map unit_text
           (run_units (generate ''lean'' [] rev ''int f(int a);\<newline>int g(int a, ...);'')))
   \<and> length (run_units (generate ''lean'' [] rev ''int f(int a);\<newline>int g(int a, ...);'')) = 1"
proof -
  let ?text = "''int f(int a);\<newline>int g(int a, ...);''"
  have r: "reorders rev" by (simp add: reorders_def)
  have f: "run_failed (generate ''lean'' [] rev ?text)" by code_simp
  have n: "length (run_units (generate ''lean'' [] rev ?text)) = 1" by code_simp
  have "(run_failed (generate ''lean'' [] rev ?text)
            \<longleftrightarrow> run_diagnostics (generate ''lean'' [] rev ?text) \<noteq> [])
    \<and> run_output (generate ''lean'' [] rev ?text)
        = concat (map unit_text (run_units (generate ''lean'' [] rev ?text)))"
    using generate_exit_status [OF r, of "''lean''" "[]" ?text] by (elim conjE) (intro conjI)
  then show ?thesis using r f n by blast
qed

subsection \<open>Opaque handles\<close>

lemma map_params_pointwise:
  "map_params ps = Inr ms \<Longrightarrow>
     list_all2 (\<lambda>p q. fst q = fst p \<and> fst (snd q) = snd p
                       \<and> map_type (snd p) = Inr (snd (snd q))) ps ms"
proof (induction ps arbitrary: ms)
  case Nil
  then show ?case by simp
next
  case (Cons p ps)
  obtain n t where p: "p = (n, t)" by (cases p)
  show ?case
    using Cons.prems Cons.IH unfolding p
    by (auto split: sum.splits)
qed

lemma convert_arg_no_access: "\<not> accesses_pointee (convert_arg p)"
proof -
  obtain n t target conv where p: "p = (n, t, (target, conv))"
    by (metis prod.exhaust)
  show ?thesis unfolding p by (cases conv) (simp_all add: convert_arg_def)
qed

lemma convert_result_access:
  "accesses_pointee (convert_result r e) = accesses_pointee e"
proof -
  obtain t target conv where r: "r = (t, (target, conv))"
    by (metis prod.exhaust)
  show ?thesis unfolding r by (cases conv) (simp_all add: convert_result_def)
qed

lemma call_no_access: "\<not> accesses_pointee (Call f (map convert_arg ps))"
  by (simp add: list_ex_iff convert_arg_no_access)

lemma map_type_opaque:
  "map_type (OpaquePointer tag) = Inr m \<Longrightarrow> m = (OpaqueHandle tag, Passthrough)"
  by simp

lemma handles_used_param:
  assumes "i < length ms" and "snd (snd (ms ! i)) = (OpaqueHandle tag, conv)"
  shows "tag \<in> set (handles_used ms r)"
proof -
  have "ms ! i \<in> set ms" using assms(1) by simp
  moreover obtain n t where "ms ! i = (n, t, (OpaqueHandle tag, conv))"
    using assms(2) by (metis prod.collapse)
  ultimately have "(n, t, (OpaqueHandle tag, conv)) \<in> set ms" by simp
  then have "tag \<in> set (concat (map (\<lambda>(n, t, m). handle_of m) ms))"
    by force
  then show ?thesis by (simp add: handles_used_def)
qed

lemma handles_used_result: "tag \<in> set (handles_used ms (t, (OpaqueHandle tag, conv)))"
  by (simp add: handles_used_def)


lemma those_members:
  "those (map f xs) = Some ys \<Longrightarrow> \<forall>y \<in> set ys. \<exists>x. f x = Some y"
proof (induction xs arbitrary: ys)
  case Nil
  then show ?case by simp
next
  case (Cons x xs)
  then show ?case by (auto split: option.splits)
qed


lemma parse_param_name: "parse_param ts = Some p \<Longrightarrow> fst p = [] \<or> is_name (fst p)"
  by (auto simp: parse_param_def split: option.splits list.splits token.splits if_splits)

lemma parse_params_names:
  assumes "parse_params ts = Some ps"
  shows "distinct (given_names ps) \<and> list_all (\<lambda>p. fst p = [] \<or> is_name (fst p)) ps"
proof (cases "ts = []")
  case True
  then show ?thesis using assms by (auto simp: parse_params_def given_names_def)
next
  case False
  then obtain qs where those: "those (map parse_param (split_commas [] ts)) = Some qs"
    and d: "distinct (given_names qs)" and ps: "ps = qs"
    using assms by (auto simp: parse_params_def split: option.splits if_splits)
  have "\<forall>p \<in> set qs. \<exists>x. parse_param x = Some p"
    using those by (rule those_members)
  then have "\<forall>p \<in> set qs. fst p = [] \<or> is_name (fst p)"
    using parse_param_name by blast
  then show ?thesis using d ps by (simp add: list_all_iff)
qed

lemma parse_function_names:
  assumes "parse_function ts = Some (FunctionDecl name ps ret)"
  shows "is_name name \<and> distinct (given_names ps)
    \<and> list_all (\<lambda>p. fst p = [] \<or> is_name (fst p)) ps"
proof -
  have "is_name name \<and> (\<exists>toks. parse_params toks = Some ps)"
    using assms
    by (simp add: parse_function_def
        split: option.splits prod.splits list.splits token.splits if_splits) blast
  then obtain toks where n: "is_name name" and p: "parse_params toks = Some ps"
    by blast
  show ?thesis using n parse_params_names [OF p] by simp
qed

lemma parse_typedef_handle:
  "parse_typedef ts = Some d \<Longrightarrow> \<exists>tag. d = OpaqueHandleDecl tag"
  by (simp add: parse_typedef_def split: list.splits token.splits if_splits) blast

lemma parse_statement_names:
  assumes "parse_statement ts = Some (FunctionDecl name ps ret)"
  shows "is_name name \<and> distinct (given_names ps)
    \<and> list_all (\<lambda>p. fst p = [] \<or> is_name (fst p)) ps"
proof (cases "parse_typedef ts")
  case None
  then have "parse_function ts = Some (FunctionDecl name ps ret)"
    using assms by (simp add: parse_statement_def)
  then show ?thesis by (rule parse_function_names)
next
  case (Some d)
  then have "d = FunctionDecl name ps ret" using assms by (simp add: parse_statement_def)
  then show ?thesis using parse_typedef_handle [OF Some] by simp
qed


lemma position_of_nth:
  assumes "distinct xs" and "k < length xs"
  shows "length (takeWhile (\<lambda>c. c \<noteq> xs ! k) xs) = k"
proof -
  have "takeWhile (\<lambda>c. c \<noteq> xs ! k) xs = take k xs"
  proof (rule takeWhile_eq_take_P_nth)
    fix i assume "i < k" and "i < length xs"
    then show "xs ! i \<noteq> xs ! k"
      using assms by (simp add: nth_eq_iff_index_eq)
  next
    show "\<not> xs ! k \<noteq> xs ! k" by simp
  qed
  then show ?thesis using assms(2) by simp
qed

lemma digits_distinct: "distinct digits \<and> length digits = 10"
  by (simp add: digits_def)

lemma digit_value_digit: "k < 10 \<Longrightarrow> digit_value (digit k) = k"
  using position_of_nth [of digits k] digits_distinct
  by (simp add: digit_def digit_value_def)

lemma numeral_value_snoc:
  "numeral_value (ds @ [c]) = 10 * numeral_value ds + digit_value c"
  by (simp add: numeral_value_def)

lemma numeral_value_decimal: "numeral_value (decimal n) = n"
proof (induction n rule: decimal.induct)
  case (1 n)
  show ?case
  proof (cases "n < 10")
    case True
    then have "decimal n = [digit n]" by (simp add: decimal.simps [of n])
    then show ?thesis using True by (simp add: numeral_value_def digit_value_digit)
  next
    case False
    then have eq: "decimal n = decimal (n div 10) @ [digit (n mod 10)]"
      by (simp add: decimal.simps [of n])
    have "numeral_value (decimal (n div 10)) = n div 10" using False 1 by simp
    then show ?thesis
      unfolding eq by (simp add: numeral_value_snoc digit_value_digit)
  qed
qed

lemma decimal_inj: "decimal i = decimal j \<Longrightarrow> i = j"
  using numeral_value_decimal [of i] numeral_value_decimal [of j] by simp

lemma positional_names_distinct: "distinct (positional_names n)"
proof -
  have "inj_on (\<lambda>i. ''arg'' @ decimal i) (set [0..<n])"
  proof (rule inj_onI)
    fix i j assume "''arg'' @ decimal i = ''arg'' @ decimal j"
    then have "decimal i = decimal j" by simp
    then show "i = j" by (rule decimal_inj)
  qed
  then show ?thesis by (simp add: positional_names_def distinct_map)
qed

lemma digit_ident: "k < 10 \<Longrightarrow> ident_char (digit k)"
  using digits_distinct by (simp add: ident_char_def digit_def)

lemma decimal_ident: "list_all ident_char (decimal n)"
proof (induction n rule: decimal.induct)
  case (1 n)
  show ?case
  proof (cases "n < 10")
    case True
    then have "decimal n = [digit n]" by (simp add: decimal.simps [of n])
    then show ?thesis using True by (simp add: digit_ident)
  next
    case False
    then have eq: "decimal n = decimal (n div 10) @ [digit (n mod 10)]"
      by (simp add: decimal.simps [of n])
    have "list_all ident_char (decimal (n div 10))" using False 1 by simp
    then show ?thesis unfolding eq by (simp add: digit_ident)
  qed
qed

lemma arg_ident: "list_all ident_char ''arg''"
  by (simp add: ident_char_def ident_start_def)


lemma arg_decimal_ident: "list_all ident_char (''arg'' @ decimal i)"
  using arg_ident decimal_ident [of i] by (simp only: list_all_append) 

lemma positional_names_ident: "list_all (list_all ident_char) (positional_names n)"
proof -
  have "\<forall>x \<in> set (positional_names n). list_all ident_char x"
  proof
    fix x assume "x \<in> set (positional_names n)"
    then obtain i where "x = ''arg'' @ decimal i"
      unfolding positional_names_def by (simp only: set_map) blast
    then show "list_all ident_char x" by (simp only: arg_decimal_ident)
  qed
  then show ?thesis by (simp add: list_all_iff)
qed

lemma adapter_names_length: "length (adapter_names ns) = length ns"
  by (simp add: adapter_names_def positional_names_def)

lemma adapter_names_distinct:
  assumes "distinct (filter (\<lambda>n. n \<noteq> []) ns)"
  shows "distinct (adapter_names ns)"
proof (cases "list_all (\<lambda>n. n \<noteq> []) ns")
  case True
  then have "filter (\<lambda>n. n \<noteq> []) ns = ns" by (simp add: list_all_iff)
  then show ?thesis using assms True by (simp add: adapter_names_def)
next
  case False
  then show ?thesis by (simp add: adapter_names_def positional_names_distinct)
qed

lemma adapter_names_ident:
  assumes "list_all (\<lambda>n. n = [] \<or> is_name n) ns"
  shows "list_all (list_all ident_char) (adapter_names ns)"
proof (cases "list_all (\<lambda>n. n \<noteq> []) ns")
  case True
  then have "list_all is_name ns" using assms by (auto simp: list_all_iff)
  then have "list_all (list_all ident_char) ns"
    by (auto simp: list_all_iff is_name_def)
  then show ?thesis using True by (simp add: adapter_names_def)
next
  case False
  then show ?thesis by (simp add: adapter_names_def positional_names_ident)
qed


lemma name_params_length: "length (name_params ms) = length ms"
  by (simp add: name_params_def adapter_names_length)

lemma name_params_names: "map fst (name_params ms) = adapter_names (map fst ms)"
  by (simp add: name_params_def adapter_names_length)

lemma name_params_nth:
  "i < length ms \<Longrightarrow> name_params ms ! i = (adapter_names (map fst ms) ! i, snd (ms ! i))"
  by (simp add: name_params_def adapter_names_length)

lemma name_params_member:
  assumes "p \<in> set (name_params ms)"
  shows "fst p \<in> set (adapter_names (map fst ms)) \<and> snd p \<in> snd ` set ms"
proof -
  obtain a b where p: "p = (a, b)" by (cases p)
  have "(a, b) \<in> set (zip (adapter_names (map fst ms)) (map snd ms))"
    using assms unfolding p by (simp only: name_params_def)
  then have "a \<in> set (adapter_names (map fst ms))" and "b \<in> set (map snd ms)"
    by (auto dest: set_zip_leftD set_zip_rightD)
  then show ?thesis unfolding p by simp
qed

lemma ident_body_char: "ident_char c \<Longrightarrow> body_char c"
  by (simp add: body_char_def)

lemma ident_body: "list_all ident_char w \<Longrightarrow> list_all body_char w"
  by (simp add: list_all_iff ident_body_char)

lemma join_chars:
  "list_all P sep \<Longrightarrow> list_all (list_all P) xs \<Longrightarrow> list_all P (join sep xs)"
  by (induction sep xs rule: join.induct) simp_all

lemma cast_chars:
  "list_all body_char ''int'' \<and> list_all body_char ''unsigned int''
   \<and> list_all body_char ''uint32_t'' \<and> list_all body_char '', ''
   \<and> list_all body_char ''('' \<and> list_all body_char '')''"
  by (simp add: body_char_def ident_char_def ident_start_def digits_def)

lemma convert_arg_chars:
  assumes "map_type t = Inr m" and "list_all ident_char n"
  shows "list_all body_char (render_expr (convert_arg (n, t, m)))"
proof (cases t)
  case (PrimitiveInt w sg)
  then have m: "m = (UInt32, ExplicitCast)" and w: "w = 32"
    using assms(1) by (auto split: if_splits)
  show ?thesis
    using cast_chars ident_body [OF assms(2)]
    unfolding PrimitiveInt m w
    by (cases sg) (simp_all add: convert_arg_def)
next
  case (Pointer t')
  then show ?thesis using assms(1) by simp
next
  case (OpaquePointer tag)
  then have "m = (OpaqueHandle tag, Passthrough)" using assms(1) by simp
  then show ?thesis using ident_body [OF assms(2)] by (simp add: convert_arg_def)
next
  case (ConstQualified t')
  then have "m = (ByteString, Passthrough)" using assms(1) by (auto split: if_splits)
  then show ?thesis using ident_body [OF assms(2)] by (simp add: convert_arg_def)
qed

lemma call_chars:
  assumes "list_all ident_char f"
    and "list_all (\<lambda>e. list_all body_char (render_expr e)) args"
  shows "list_all body_char (render_expr (Call f args))"
proof -
  have "list_all (list_all body_char) (map render_expr args)"
    using assms(2) by (simp add: list_all_iff)
  then have "list_all body_char (join '', '' (map render_expr args))"
    using cast_chars by (intro join_chars) simp_all
  then show ?thesis
    using ident_body [OF assms(1)] cast_chars by simp
qed

lemma convert_result_chars:
  assumes "map_type t = Inr m" and "list_all body_char (render_expr e)"
  shows "list_all body_char (render_expr (convert_result (t, m) e))"
proof -
  obtain target conv where m: "m = (target, conv)" by (cases m)
  show ?thesis
  proof (cases conv)
    case Passthrough
    then show ?thesis using assms(2) by (simp add: m convert_result_def)
  next
    case ExplicitCast
    then have "target = UInt32"
      using assms(1) unfolding m by (cases t) (auto split: if_splits)
    then show ?thesis
      using assms(2) cast_chars ExplicitCast by (simp add: m convert_result_def)
  qed
qed

lemma body_char_no_operator:
  "body_char c \<Longrightarrow> c \<notin> set ''*->.[&''"
  by (auto simp: body_char_def ident_char_def ident_start_def digits_def)

lemma translate_function:
  assumes "item_decl it = Some (FunctionDecl name params ret)"
    and "translate lib it = Inr u"
  shows "\<exists>ms rm. map_params params = Inr ms \<and> map_type ret = Inr rm
      \<and> list_all (\<lambda>tag. tag \<in> set (item_known it)) (handles_used ms (ret, rm))
      \<and> unit_adapter u = Some (make_adapter lib name ms (ret, rm))
      \<and> unit_text u = render_adapter (make_adapter lib name ms (ret, rm))"
  using assms
  by (auto simp: translate_def split: sum.splits if_splits)

lemma make_adapter_body:
  "adapter_body (make_adapter lib name ms r)
     = convert_result r (Call name (map convert_arg (name_params ms)))"
  by (simp add: make_adapter_def)

lemma make_adapter_params:
  "adapter_params (make_adapter lib name ms r)
     = map (\<lambda>(n, t, m). (fst m, n)) (name_params ms)"
  by (simp add: make_adapter_def)

lemma make_adapter_ret: "adapter_ret (make_adapter lib name ms r) = fst (snd r)"
  by (simp add: make_adapter_def)

lemma make_adapter_no_access:
  "\<not> accesses_pointee (adapter_body (make_adapter lib name ms r))"
  by (simp only: make_adapter_body convert_result_access call_no_access not_False_eq_True)

lemma make_adapter_call:
  "adapter_body (make_adapter lib name ms r) = Call name (map convert_arg (name_params ms))
   \<or> (\<exists>ty. adapter_body (make_adapter lib name ms r)
          = Cast ty (Call name (map convert_arg (name_params ms))))"
proof -
  obtain t target conv where r: "r = (t, (target, conv))"
    by (metis prod.exhaust)
  show ?thesis unfolding make_adapter_body r
    by (cases conv) (simp_all add: convert_result_def)
qed

lemma map_params_names:
  assumes "map_params params = Inr ms"
  shows "map fst ms = map fst params"
proof -
  have "map (\<lambda>(n, t, m). (n, t)) ms = params"
    using map_params_consistent [OF assms] by simp
  then have "map fst (map (\<lambda>(n, t, m). (n, t)) ms) = map fst params" by simp
  then show ?thesis by (simp add: case_prod_beta comp_def)
qed

lemma adapter_body_chars:
  assumes name: "is_name name"
    and names: "list_all (\<lambda>p. fst p = [] \<or> is_name (fst p)) params"
    and ms: "map_params params = Inr ms" and rm: "map_type ret = Inr rm"
  shows "list_all body_char (render_expr (adapter_body (make_adapter lib name ms (ret, rm))))"
proof -
  have fst_ms: "map fst ms = map fst params" using ms by (rule map_params_names)
  have "list_all (\<lambda>n. n = [] \<or> is_name n) (map fst params)"
    using names by (simp add: list_all_iff)
  then have idents: "list_all (list_all ident_char) (adapter_names (map fst ms))"
    unfolding fst_ms by (rule adapter_names_ident)
  have types: "list_all (\<lambda>(n, t, m). map_type t = Inr m) ms"
    using map_params_consistent [OF ms] by simp
  have "list_all body_char (render_expr (convert_arg p))" if "p \<in> set (name_params ms)" for p
  proof -
    obtain n t m where p: "p = (n, t, m)" by (cases p)
    have "n \<in> set (adapter_names (map fst ms))" and "(t, m) \<in> snd ` set ms"
      using name_params_member [OF that] unfolding p by simp_all
    then have "list_all ident_char n" and "map_type t = Inr m"
      using idents types by (auto simp: list_all_iff)
    then show ?thesis unfolding p by (intro convert_arg_chars)
  qed
  then have "list_all (\<lambda>e. list_all body_char (render_expr e)) (map convert_arg (name_params ms))"
    by (simp add: list_all_iff)
  moreover have "list_all ident_char name" using name by (simp add: is_name_def)
  ultimately have "list_all body_char (render_expr (Call name (map convert_arg (name_params ms))))"
    by (intro call_chars)
  then show ?thesis
    unfolding make_adapter_body using rm by (intro convert_result_chars)
qed

lemma adapter_param_names:
  "map snd (adapter_params (make_adapter lib name ms r)) = adapter_names (map fst ms)"
proof -
  have "map snd (map (\<lambda>(n, t, m). (fst m, n)) xs) = map fst xs"
    for xs :: "(string \<times> ctype \<times> type_mapping) list"
    by (induction xs) (simp_all add: case_prod_beta)
  then show ?thesis by (simp only: make_adapter_params name_params_names)
qed

lemma opaque_param:
  assumes pw: "list_all2 (\<lambda>p q. fst q = fst p \<and> fst (snd q) = snd p
                       \<and> map_type (snd p) = Inr (snd (snd q))) params ms"
    and i: "i < length params" and t: "snd (params ! i) = OpaquePointer tag"
  shows "name_params ms ! i
        = (adapter_names (map fst ms) ! i, OpaquePointer tag, (OpaqueHandle tag, Passthrough))"
proof -
  have len: "length ms = length params"
    using pw by (simp add: list_all2_lengthD)
  have q: "fst (snd (ms ! i)) = snd (params ! i)
      \<and> map_type (snd (params ! i)) = Inr (snd (snd (ms ! i)))"
    using list_all2_nthD [OF pw i] by simp
  then have m: "snd (snd (ms ! i)) = (OpaqueHandle tag, Passthrough)"
    using t by simp
  have msi: "snd (ms ! i) = (OpaquePointer tag, (OpaqueHandle tag, Passthrough))"
    using q t m by (cases "snd (ms ! i)") simp
  have i': "i < length ms" using i len by simp
  show ?thesis
    using name_params_nth [OF i'] msi by simp
qed


text \<open>
  Claim C3. Opaque handles pass through. Take a function declaration of a header that
  translates. Its generated text is the adapter written out: the signature, and the one
  statement \<open>return e;\<close>, where \<open>e\<close> is the call of the original function on one argument
  for each parameter, under a cast or not. The text of \<open>e\<close> is made of the characters of
  identifiers, parentheses, commas and blanks only, so that it holds none of the
  operators \<open>*\<close>, \<open>->\<close>, \<open>.\<close>, \<open>[\<close> and \<open>&\<close>: the generated code neither dereferences a
  pointer nor accesses a field. The parameters of the adapter have names different from
  one another. A parameter whose type is an opaque handle has a registered handle, keeps
  the handle type in the adapter, and is handed to the original as it is: the argument
  at its position is that parameter of the adapter. When the return type is an opaque
  handle, the handle is registered and the adapter returns the call itself, unconverted,
  with the handle type.
\<close>

theorem opaque_handle_passthrough:
  assumes "it \<in> set (parse_header known text)"
    and "item_decl it = Some (FunctionDecl name params ret)"
    and "translate lib it = Inr u"
  shows "\<exists>a args. unit_adapter u = Some a
      \<and> unit_text u
          = declarator (adapter_ret a) (adapter_symbol a) @ ''(''
            @ join '', '' (map (\<lambda>(t, n). declarator t n) (adapter_params a)) @ '') {''
            @ [newline] @ ''    return '' @ render_expr (adapter_body a) @ '';''
            @ [newline] @ ''}'' @ [newline]
      \<and> list_all body_char (render_expr (adapter_body a))
      \<and> set (render_expr (adapter_body a)) \<inter> set ''*->.[&'' = {}
      \<and> length args = length params
      \<and> length (adapter_params a) = length params
      \<and> distinct (map snd (adapter_params a))
      \<and> (adapter_body a = Call name args \<or> (\<exists>ty. adapter_body a = Cast ty (Call name args)))
      \<and> \<not> accesses_pointee (adapter_body a)
      \<and> (\<forall>i < length params. \<forall>tag. snd (params ! i) = OpaquePointer tag \<longrightarrow>
            tag \<in> set (item_known it)
            \<and> args ! i = Var (snd (adapter_params a ! i))
            \<and> fst (adapter_params a ! i) = OpaqueHandle tag)
      \<and> (\<forall>tag. ret = OpaquePointer tag \<longrightarrow>
            tag \<in> set (item_known it) \<and> adapter_body a = Call name args
            \<and> adapter_ret a = OpaqueHandle tag)"
proof -
  from translate_function [OF assms(2) assms(3)]
  obtain ms rm where ms: "map_params params = Inr ms" and rm: "map_type ret = Inr rm"
    and known: "list_all (\<lambda>tag. tag \<in> set (item_known it)) (handles_used ms (ret, rm))"
    and a: "unit_adapter u = Some (make_adapter lib name ms (ret, rm))"
    and utext: "unit_text u = render_adapter (make_adapter lib name ms (ret, rm))"
    by (elim exE conjE) (rule that)
  let ?a = "make_adapter lib name ms (ret, rm)"
  let ?args = "map convert_arg (name_params ms)"
  have parsed: "parse_statement (item_tokens it) = Some (FunctionDecl name params ret)"
    using assms(1) assms(2) parse_statements_decl
    unfolding parse_header_def by fastforce
  have wf: "is_name name \<and> distinct (given_names params)
      \<and> list_all (\<lambda>p. fst p = [] \<or> is_name (fst p)) params"
    using parsed by (rule parse_statement_names)
  have pw: "list_all2 (\<lambda>p q. fst q = fst p \<and> fst (snd q) = snd p
                       \<and> map_type (snd p) = Inr (snd (snd q))) params ms"
    using ms by (rule map_params_pointwise)
  have len: "length ms = length params"
    using pw by (simp add: list_all2_lengthD)
  have fst_ms: "map fst ms = map fst params" using ms by (rule map_params_names)
  have t1: "unit_text u
          = declarator (adapter_ret ?a) (adapter_symbol ?a) @ ''(''
            @ join '', '' (map (\<lambda>(t, n). declarator t n) (adapter_params ?a)) @ '') {''
            @ [newline] @ ''    return '' @ render_expr (adapter_body ?a) @ '';''
            @ [newline] @ ''}'' @ [newline]"
    unfolding utext by (simp only: render_adapter_def)
  have t2: "list_all body_char (render_expr (adapter_body ?a))"
    using wf ms rm by (intro adapter_body_chars) simp_all
  have t3: "set (render_expr (adapter_body ?a)) \<inter> set ''*->.[&'' = {}"
  proof -
    have "\<forall>c \<in> set (render_expr (adapter_body ?a)). c \<notin> set ''*->.[&''"
      using t2 body_char_no_operator by (simp only: list_all_iff) blast
    then show ?thesis by blast
  qed
  have 1: "length ?args = length params"
    by (simp add: name_params_length len)
  have 2: "length (adapter_params ?a) = length params"
    by (simp add: make_adapter_params name_params_length len)
  have d: "distinct (map snd (adapter_params ?a))"
  proof -
    have "distinct (filter (\<lambda>n. n \<noteq> []) (map fst params))"
      using wf by (simp add: given_names_def)
    then have "distinct (adapter_names (map fst params))" by (rule adapter_names_distinct)
    then show ?thesis by (simp only: adapter_param_names fst_ms)
  qed
  have 3: "adapter_body ?a = Call name ?args \<or> (\<exists>ty. adapter_body ?a = Cast ty (Call name ?args))"
    by (rule make_adapter_call)
  have 4: "\<not> accesses_pointee (adapter_body ?a)"
    by (rule make_adapter_no_access)
  have 5: "\<forall>i < length params. \<forall>tag. snd (params ! i) = OpaquePointer tag \<longrightarrow>
            tag \<in> set (item_known it)
            \<and> ?args ! i = Var (snd (adapter_params ?a ! i))
            \<and> fst (adapter_params ?a ! i) = OpaqueHandle tag"
  proof (intro allI impI)
    fix i tag
    assume i: "i < length params" and t: "snd (params ! i) = OpaquePointer tag"
    have named: "name_params ms ! i
        = (adapter_names (map fst ms) ! i, OpaquePointer tag, (OpaqueHandle tag, Passthrough))"
      using pw i t by (rule opaque_param)
    have i': "i < length ms" using i len by simp
    have "snd (snd (ms ! i)) = (OpaqueHandle tag, Passthrough)"
      using list_all2_nthD [OF pw i] t by simp
    then have "tag \<in> set (handles_used ms (ret, rm))"
      using i' handles_used_param by blast
    then have k: "tag \<in> set (item_known it)"
      using known by (simp add: list_all_iff)
    have par: "adapter_params ?a ! i = (OpaqueHandle tag, adapter_names (map fst ms) ! i)"
      using i' named by (simp add: make_adapter_params name_params_length)
    have arg: "?args ! i = Var (adapter_names (map fst ms) ! i)"
      using i' named by (simp add: name_params_length convert_arg_def)
    show "tag \<in> set (item_known it)
            \<and> ?args ! i = Var (snd (adapter_params ?a ! i))
            \<and> fst (adapter_params ?a ! i) = OpaqueHandle tag"
      using k arg par by simp
  qed
  have 6: "\<forall>tag. ret = OpaquePointer tag \<longrightarrow>
            tag \<in> set (item_known it) \<and> adapter_body ?a = Call name ?args
            \<and> adapter_ret ?a = OpaqueHandle tag"
  proof (intro allI impI)
    fix tag assume t: "ret = OpaquePointer tag"
    have m: "rm = (OpaqueHandle tag, Passthrough)"
      using rm t by simp
    have "tag \<in> set (handles_used ms (ret, rm))"
      unfolding m by (rule handles_used_result)
    then have "tag \<in> set (item_known it)"
      using known by (simp add: list_all_iff)
    then show "tag \<in> set (item_known it) \<and> adapter_body ?a = Call name ?args
            \<and> adapter_ret ?a = OpaqueHandle tag"
      by (simp add: m make_adapter_body make_adapter_ret convert_result_def)
  qed
  have "unit_adapter u = Some ?a
      \<and> unit_text u
          = declarator (adapter_ret ?a) (adapter_symbol ?a) @ ''(''
            @ join '', '' (map (\<lambda>(t, n). declarator t n) (adapter_params ?a)) @ '') {''
            @ [newline] @ ''    return '' @ render_expr (adapter_body ?a) @ '';''
            @ [newline] @ ''}'' @ [newline]
      \<and> list_all body_char (render_expr (adapter_body ?a))
      \<and> set (render_expr (adapter_body ?a)) \<inter> set ''*->.[&'' = {}
      \<and> length ?args = length params
      \<and> length (adapter_params ?a) = length params
      \<and> distinct (map snd (adapter_params ?a))
      \<and> (adapter_body ?a = Call name ?args \<or> (\<exists>ty. adapter_body ?a = Cast ty (Call name ?args)))
      \<and> \<not> accesses_pointee (adapter_body ?a)
      \<and> (\<forall>i < length params. \<forall>tag. snd (params ! i) = OpaquePointer tag \<longrightarrow>
            tag \<in> set (item_known it)
            \<and> ?args ! i = Var (snd (adapter_params ?a ! i))
            \<and> fst (adapter_params ?a ! i) = OpaqueHandle tag)
      \<and> (\<forall>tag. ret = OpaquePointer tag \<longrightarrow>
            tag \<in> set (item_known it) \<and> adapter_body ?a = Call name ?args
            \<and> adapter_ret ?a = OpaqueHandle tag)"
    apply (intro conjI)
    apply (rule a)
    apply (rule t1)
    apply (rule t2)
    apply (rule t3)
    apply (rule 1)
    apply (rule 2)
    apply (rule d)
    apply (rule 3)
    apply (rule 4)
    apply (rule 5)
    apply (rule 6)
    done
  then show ?thesis by (intro exI)
qed

theorem opaque_handle_passthrough_witness:
  "parse_header [] mixed_api_h ! 4 \<in> set (parse_header [] mixed_api_h)
   \<and> item_decl (parse_header [] mixed_api_h ! 4)
     = Some (FunctionDecl ''db_execute''
               [(''conn'', OpaquePointer ''db_conn''),
                (''sql'', ConstQualified (Pointer (PrimitiveInt 8 Signed)))]
               (PrimitiveInt 32 Signed))
   \<and> translate ''lean_mixed_api'' (parse_header [] mixed_api_h ! 4)
     = Inr \<lparr>unit_text = ''uint32_t lean_mixed_api_db_execute(db_conn *conn, const char *sql) {\<newline>    return (uint32_t)db_execute(conn, sql);\<newline>}\<newline>'',
            unit_symbol = ''db_execute'',
            unit_adapter =
              Some \<lparr>adapter_symbol = ''lean_mixed_api_db_execute'',
                    adapter_ret = UInt32,
                    adapter_params = [(OpaqueHandle ''db_conn'', ''conn''), (ByteString, ''sql'')],
                    adapter_body = Cast ''uint32_t'' (Call ''db_execute'' [Var ''conn'', Var ''sql''])\<rparr>\<rparr>
   \<and> set (render_expr (Cast ''uint32_t'' (Call ''db_execute'' [Var ''conn'', Var ''sql''])))
         \<inter> set ''*->.[&'' = {}
   \<and> \<not> accesses_pointee (Cast ''uint32_t'' (Call ''db_execute'' [Var ''conn'', Var ''sql'']))
   \<and> distinct (map snd [(OpaqueHandle ''db_conn'', ''conn''), (ByteString, ''sql'')])
   \<and> ''db_conn'' \<in> set (item_known (parse_header [] mixed_api_h ! 4))"
proof -
  let ?it = "parse_header [] mixed_api_h ! 4"
  let ?params = "[(''conn'', OpaquePointer ''db_conn''),
                (''sql'', ConstQualified (Pointer (PrimitiveInt 8 Signed)))]"
  let ?a = "\<lparr>adapter_symbol = ''lean_mixed_api_db_execute'',
                    adapter_ret = UInt32,
                    adapter_params = [(OpaqueHandle ''db_conn'', ''conn''), (ByteString, ''sql'')],
                    adapter_body = Cast ''uint32_t'' (Call ''db_execute'' [Var ''conn'', Var ''sql''])\<rparr>"
  let ?u = "\<lparr>unit_text = ''uint32_t lean_mixed_api_db_execute(db_conn *conn, const char *sql) {\<newline>    return (uint32_t)db_execute(conn, sql);\<newline>}\<newline>'',
            unit_symbol = ''db_execute'', unit_adapter = Some ?a\<rparr>"
  have len: "length (parse_header [] mixed_api_h) = 5" by code_simp
  have i: "?it \<in> set (parse_header [] mixed_api_h)"
    using len by (intro nth_mem) simp
  have d: "item_decl ?it = Some (FunctionDecl ''db_execute'' ?params (PrimitiveInt 32 Signed))"
    by code_simp
  have t: "translate ''lean_mixed_api'' ?it = Inr ?u"
    by code_simp
  from opaque_handle_passthrough [OF i d t]
  obtain a args where a: "unit_adapter ?u = Some a"
    and ops: "set (render_expr (adapter_body a)) \<inter> set ''*->.[&'' = {}"
    and dist: "distinct (map snd (adapter_params a))"
    and no: "\<not> accesses_pointee (adapter_body a)"
    and ps: "\<forall>i < length ?params. \<forall>tag.
            snd (?params ! i) = OpaquePointer tag \<longrightarrow>
            tag \<in> set (item_known ?it)
            \<and> args ! i = Var (snd (adapter_params a ! i))
            \<and> fst (adapter_params a ! i) = OpaqueHandle tag"
    by (elim exE conjE) (rule that)
  have eq: "a = ?a" using a by simp
  have 1: "set (render_expr (Cast ''uint32_t'' (Call ''db_execute'' [Var ''conn'', Var ''sql''])))
         \<inter> set ''*->.[&'' = {}"
    using ops unfolding eq by (simp only: adapter.simps)
  have 2: "\<not> accesses_pointee (Cast ''uint32_t'' (Call ''db_execute'' [Var ''conn'', Var ''sql'']))"
    using no unfolding eq by simp
  have 3: "distinct (map snd [(OpaqueHandle ''db_conn'', ''conn''), (ByteString, ''sql'')])"
    using dist unfolding eq by (simp only: adapter.simps)
  have "0 < length ?params \<and> snd (?params ! 0) = OpaquePointer ''db_conn''" by simp
  then have 4: "''db_conn'' \<in> set (item_known ?it)"
    using ps by blast
  show ?thesis using i d t 1 2 3 4 by (intro conjI)
qed

subsection \<open>Failing declarations\<close>




lemma translate_handle:
  "item_decl it = Some (OpaqueHandleDecl tag) \<Longrightarrow>
     translate lib it = Inr \<lparr>unit_text = [], unit_symbol = tag, unit_adapter = None\<rparr>"
  by (simp add: translate_def)









subsection \<open>The reference adapter as golden file\<close>

text \<open>
  On \<open>simple_math.h\<close> the generator writes, character for character, the function of
  \<open>c/ffi.c\<close>.
\<close>

lemma generate_simple_math_golden:
  "run_output (generate ''lean_simple_math'' [] id simple_math_h)
     = ''uint32_t lean_simple_math_add(uint32_t a, uint32_t b) {\<newline>    return (uint32_t)add((int)a, (int)b);\<newline>}\<newline>''"
  by code_simp

end
